theory Spec2Isabelle
  imports Main "HOL-Library.Char_ord" "HOL-Library.Sublist"
begin

section \<open>JavaScript values and strings\<close>

text \<open>
  The gateway of \<^verbatim>\<open>src/index.js\<close> moves JavaScript values between an HTTP request, the
  MongoDB driver and an HTTP response. A promise that is awaited either resolves, rejects
  with an error (of which the source only ever reads \<^verbatim>\<open>err.message\<close>), or stays pending.
\<close>

datatype 'a outcome = Resolves 'a | Rejects string | Pending

text \<open>
  Values: the JSON data of bodies, documents and error envelopes, and the driver's cursor
  handles. A cursor handle carries the name of its constructor (what
  \<^verbatim>\<open>object.constructor.name\<close> reads) and what awaiting its \<^verbatim>\<open>toArray()\<close> gives.
  \<open>Obj\<close> is a plain object: its own enumerable properties in insertion order.
\<close>

datatype jsval =
    Undefined
  | Null
  | Bool bool
  | Num int
  | Str string
  | Arr "jsval list"
  | Obj "(string \<times> jsval) list"
  | Cursor string "jsval list outcome"

text \<open>Truthiness, as \<^verbatim>\<open>if (x)\<close> and \<^verbatim>\<open>x && y\<close> test it.\<close>

fun truthy :: "jsval \<Rightarrow> bool" where
  "truthy Undefined = False"
| "truthy Null = False"
| "truthy (Bool b) = b"
| "truthy (Num n) = (n \<noteq> 0)"
| "truthy (Str s) = (s \<noteq> [])"
| "truthy (Arr xs) = True"
| "truthy (Obj kvs) = True"
| "truthy (Cursor cn r) = True"

text \<open>\<^verbatim>\<open>Array.isArray\<close>.\<close>

fun isArray :: "jsval \<Rightarrow> bool" where
  "isArray (Arr xs) = True"
| "isArray v = False"

text \<open>
  Assignment of a property of an object literal: a key that is already there keeps its
  place and takes the new value, a new key goes to the end.
\<close>

fun obj_set :: "string \<Rightarrow> jsval \<Rightarrow> (string \<times> jsval) list \<Rightarrow> (string \<times> jsval) list" where
  "obj_set k v [] = [(k, v)]"
| "obj_set k v ((k', v') # kvs) = (if k = k' then (k, v) # kvs else (k', v') # obj_set k v kvs)"

text \<open>Property read \<^verbatim>\<open>o[k]\<close> on a plain object: \<^verbatim>\<open>undefined\<close> when the key is absent.\<close>

fun obj_get :: "string \<Rightarrow> (string \<times> jsval) list \<Rightarrow> jsval" where
  "obj_get k [] = Undefined"
| "obj_get k ((k', v') # kvs) = (if k = k' then v' else obj_get k kvs)"

text \<open>
  \<^verbatim>\<open>String.prototype.split(sep)\<close>: the pieces between the occurrences of \<open>sep\<close>, found from
  left to right without overlap; the empty separator cuts between all characters.
\<close>

function js_split :: "string \<Rightarrow> string \<Rightarrow> string list" where
  "js_split sep [] = (if sep = [] then [] else [[]])"
| "js_split sep (c # cs) =
     (if sep = [] then map (\<lambda>x. [x]) (c # cs)
      else if prefix sep (c # cs) then [] # js_split sep (drop (length sep) (c # cs))
      else (case js_split sep cs of
              [] \<Rightarrow> [[c]]
            | p # ps \<Rightarrow> (c # p) # ps))"
  by pat_completeness auto
termination
  by (relation "measure (\<lambda>(sep, s). length s)") (auto simp: Suc_diff_le prefix_def)

text \<open>\<^verbatim>\<open>Array.prototype.join("")\<close> on an array of strings.\<close>

definition join_empty :: "string list \<Rightarrow> string" where
  "join_empty ps = concat ps"

text \<open>\<^verbatim>\<open>String.prototype.includes\<close>.\<close>

fun js_includes :: "string \<Rightarrow> string \<Rightarrow> bool" where
  "js_includes sub [] = (sub = [])"
| "js_includes sub (c # cs) = (prefix sub (c # cs) \<or> js_includes sub cs)"

text \<open>
  \<^verbatim>\<open>String.prototype.toLowerCase\<close> on ASCII text (HTTP method names and driver messages);
  bytes outside \<open>A\<close>..\<open>Z\<close> are left as they are.
\<close>

definition lower_char :: "char \<Rightarrow> char" where
  "lower_char c =
     (if CHR ''A'' \<le> c \<and> c \<le> CHR ''Z'' then char_of (of_char c + (32 :: nat)) else c)"

definition toLowerCase :: "string \<Rightarrow> string" where
  "toLowerCase s = map lower_char s"

section \<open>The response object\<close>

text \<open>
  What the source uses of Express's response: \<^verbatim>\<open>res.status\<close>, \<^verbatim>\<open>res.json\<close> and
  \<^verbatim>\<open>res.headersSent\<close>. \<open>sent\<close> lists every body written to the client with the status
  code it went out under. \<^verbatim>\<open>res.json\<close> on a response whose headers are out throws
  (Node: \<^verbatim>\<open>ERR_HTTP_HEADERS_SENT\<close>) and writes nothing.
\<close>

record response =
  statusCode :: nat
  headersSent :: bool
  sent :: "(nat \<times> jsval) list"

definition fresh_response :: response where
  "fresh_response = \<lparr>statusCode = 200, headersSent = False, sent = []\<rparr>"

definition res_status :: "nat \<Rightarrow> response \<Rightarrow> response" where
  "res_status st r = r\<lparr>statusCode := st\<rparr>"

definition res_json :: "jsval \<Rightarrow> response \<Rightarrow> string + response" where
  "res_json b r =
     (if headersSent r then Inl ''Cannot set headers after they are sent to the client''
      else Inr (r\<lparr>headersSent := True, sent := sent r @ [(statusCode r, b)]\<rparr>))"

section \<open>\<^verbatim>\<open>error\<close>: the error envelope\<close>

text \<open>
  \<^verbatim>\<open>error(reason, context, status, response)\<close> builds
  \<^verbatim>\<open>{ error: { reason, ...context, status } }\<close>, sets the status and writes the object.
  Every call in the source passes all four arguments; \<open>context\<close> is \<^verbatim>\<open>null\<close> (\<open>None\<close>) or an
  object literal. The result is what the call returns or throws, with the response as the
  call leaves it.
\<close>

definition spread_props :: "(string \<times> jsval) list option \<Rightarrow> (string \<times> jsval) list" where
  "spread_props context = (case context of None \<Rightarrow> [] | Some kvs \<Rightarrow> kvs)"

definition error_fields :: "string \<Rightarrow> (string \<times> jsval) list option \<Rightarrow> nat \<Rightarrow> (string \<times> jsval) list" where
  "error_fields reason context status =
     obj_set ''status'' (Num (int status))
       (fold (\<lambda>(k, v). obj_set k v) (spread_props context) [(''reason'', Str reason)])"

definition envelope :: "string \<Rightarrow> (string \<times> jsval) list option \<Rightarrow> nat \<Rightarrow> jsval" where
  "envelope reason context status = Obj [(''error'', Obj (error_fields reason context status))]"

definition error :: "string \<Rightarrow> (string \<times> jsval) list option \<Rightarrow> nat \<Rightarrow> response
                     \<Rightarrow> (string + jsval) \<times> response" where
  "error reason context status r =
     (let object = envelope reason context status;
          r1 = res_status status r
      in case res_json object r1 of
           Inl ex \<Rightarrow> (Inl ex, r1)
         | Inr r2 \<Rightarrow> (Inr object, r2))"

section \<open>Credentials from the \<^verbatim>\<open>Authorization\<close> header\<close>

record credential =
  user :: string
  password :: string

text \<open>\<^verbatim>\<open>authorization.split("Basic ").join("")\<close>.\<close>

definition strip_basic :: "string \<Rightarrow> string" where
  "strip_basic a = join_empty (js_split ''Basic '' a)"

text \<open>
  The decoded text is split at every \<open>:\<close>; \<^verbatim>\<open>shift\<close> takes the first piece as the user and
  \<^verbatim>\<open>join("")\<close> glues the remaining pieces into the password.
\<close>

definition credential_of :: "string \<Rightarrow> credential" where
  "credential_of decoded =
     (case js_split '':'' decoded of
        [] \<Rightarrow> \<lparr>user = [], password = []\<rparr>
      | u # rest \<Rightarrow> \<lparr>user = u, password = join_empty rest\<rparr>)"

text \<open>
  Lines 68 to 79. \<open>b64\<close> stands for \<^verbatim>\<open>Buffer.from(_, "base64").toString("utf-8")\<close> of the
  Node runtime. A missing or empty header leaves \<^verbatim>\<open>auth\<close> at \<^verbatim>\<open>null\<close>.
\<close>

definition extract_auth :: "(string \<Rightarrow> string) \<Rightarrow> string option \<Rightarrow> credential option" where
  "extract_auth b64 authorization =
     (case authorization of
        None \<Rightarrow> None
      | Some a \<Rightarrow> if a = [] then None else Some (credential_of (b64 (strip_basic a))))"

section \<open>The driver, the request and the per-request state\<close>

text \<open>
  The dispatch target: the object an action is looked up on
  (\<^verbatim>\<open>client\<close>, \<^verbatim>\<open>client.db(db_name)\<close>, \<^verbatim>\<open>database.collection(collection_name)\<close>).
\<close>

datatype target = Client | Database string | Collection string string

text \<open>
  The places where a handler waits for the store, and so where the 10 second timer of
  line 52 can run before the handler goes on. \<open>After_completion\<close>: the timer runs when the
  handlers are through (or stuck).
\<close>

datatype await_point = During_connect | During_invoke | During_toArray | After_completion

text \<open>
  What the source takes from outside the repository, as parameters: the MongoDB driver
  (\<^verbatim>\<open>MongoClient.connect\<close>; \<^verbatim>\<open>client.db\<close> and \<^verbatim>\<open>database.collection\<close>, which throw on a name
  they refuse, \<open>Some\<close> the message; \<^verbatim>\<open>target[action](...args)\<close>, where a missing action is
  a rejection with the \<^verbatim>\<open>TypeError\<close>'s message), \<^verbatim>\<open>fclone\<close>, the base64 decoder, where
  the deadline falls, and of the runtime: \<^verbatim>\<open>decodeURIComponent\<close>, with which Express decodes
  the path and its parameters (\<open>None\<close> where it throws \<^verbatim>\<open>URIError\<close>), and whether a promise
  that rejects with nobody to catch it ends the process (the default from Node 15 on; before,
  a warning is printed and the process goes on).
\<close>

record env =
  drv_connect :: "credential option \<Rightarrow> unit outcome"
  drv_db :: "string \<Rightarrow> string option"
  drv_collection :: "string \<Rightarrow> string \<Rightarrow> string option"
  drv_invoke :: "target \<Rightarrow> string \<Rightarrow> jsval list \<Rightarrow> jsval outcome"
  fclone :: "jsval \<Rightarrow> jsval"
  b64 :: "string \<Rightarrow> string"
  deadline :: await_point
  decodeURIComponent :: "string \<Rightarrow> string option"
  exits_on_rejection :: bool

text \<open>
  The request as the handlers see it: \<^verbatim>\<open>req.method\<close> (here \<open>req_method\<close>), the path
  without its query string, as the request spells it, \<^verbatim>\<open>req.body\<close> as \<^verbatim>\<open>express.json()\<close>
  of line 49 left it, and \<^verbatim>\<open>req.get("authorization")\<close>.
\<close>

record request =
  req_method :: string
  path :: string
  body :: jsval
  authorization :: "string option"

datatype event = Connect "credential option" | Invoke target string "jsval list" | Timed_out

text \<open>
  \<^verbatim>\<open>res\<close> with \<^verbatim>\<open>res.locals\<close>, whether the timer is still to run, and a log of what was asked
  of the store.
\<close>

record ctx =
  res :: response
  locals_client :: bool
  locals_database :: "string option"
  locals_collection :: "(string \<times> string) option"
  timer :: bool
  log :: "event list"

definition initial_ctx :: ctx where
  "initial_ctx = \<lparr>res = fresh_response, locals_client = False, locals_database = None,
                   locals_collection = None, timer = False, log = []\<rparr>"

text \<open>How a handler ends: it called \<^verbatim>\<open>next()\<close>, it returned without, its promise rejected
  with nobody to catch it, or it waits for ever.\<close>

datatype flow = Next | Done | Unhandled string | Stalled

fun rejected :: "flow \<Rightarrow> bool" where
  "rejected (Unhandled ex) = True"
| "rejected fl = False"

text \<open>The timer's callback, lines 52 to 55.\<close>

definition on_timeout :: "ctx \<Rightarrow> ctx" where
  "on_timeout c =
     (if headersSent (res c) then c
      else c\<lparr>res := snd (error ''timeout'' None 500 (res c)), log := log c @ [Timed_out]\<rparr>)"

definition await_io :: "await_point \<Rightarrow> env \<Rightarrow> ctx \<Rightarrow> ctx" where
  "await_io p e c =
     (if timer c \<and> deadline e = p then on_timeout (c\<lparr>timer := False\<rparr>) else c)"

text \<open>\<^verbatim>\<open>return await error(...)\<close> at the end of a handler.\<close>

definition finish :: "(string + jsval) \<times> response \<Rightarrow> ctx \<Rightarrow> flow \<times> ctx" where
  "finish er c =
     (case er of
        (Inl ex, r) \<Rightarrow> (Unhandled ex, c\<lparr>res := r\<rparr>)
      | (Inr object, r) \<Rightarrow> (Done, c\<lparr>res := r\<rparr>))"

section \<open>\<^verbatim>\<open>parse\<close>: normalising a result\<close>

text \<open>
  \<^verbatim>\<open>object.constructor.name === "Cursor"\<close>: reading \<^verbatim>\<open>constructor\<close> of \<^verbatim>\<open>null\<close> or
  \<^verbatim>\<open>undefined\<close> throws; a plain object answers with an own property \<^verbatim>\<open>constructor\<close> when
  it has one, and with \<^verbatim>\<open>Object\<close> otherwise.
\<close>

fun named_Cursor :: "jsval \<Rightarrow> string + bool" where
  "named_Cursor Undefined = Inl ''Cannot read property 'constructor' of undefined''"
| "named_Cursor Null = Inl ''Cannot read property 'constructor' of null''"
| "named_Cursor (Cursor cn r) = Inr (cn = ''Cursor'')"
| "named_Cursor (Obj kvs) =
     (case map_of kvs ''constructor'' of
        None \<Rightarrow> Inr False
      | Some Undefined \<Rightarrow> Inl ''Cannot read property 'name' of undefined''
      | Some Null \<Rightarrow> Inl ''Cannot read property 'name' of null''
      | Some (Obj kvs') \<Rightarrow> Inr (obj_get ''name'' kvs' = Str ''Cursor'')
      | Some v \<Rightarrow> Inr False)"
| "named_Cursor v = Inr False"

definition parse :: "env \<Rightarrow> jsval \<Rightarrow> ctx \<Rightarrow> jsval outcome \<times> ctx" where
  "parse e object c =
     (case named_Cursor object of
        Inl ex \<Rightarrow> (Rejects ex, c)
      | Inr False \<Rightarrow> (Resolves (fclone e object), c)
      | Inr True \<Rightarrow>
          (case object of
             Cursor cn r \<Rightarrow>
               (let c' = await_io During_toArray e c
                in case r of
                     Resolves xs \<Rightarrow> (Resolves (fclone e (Arr xs)), c')
                   | Rejects m \<Rightarrow> (Rejects m, c')
                   | Pending \<Rightarrow> (Pending, c'))
           | _ \<Rightarrow> (Rejects ''object.toArray is not a function'', c)))"

section \<open>Route patterns\<close>

text \<open>
  Express 4 turns a route string into a regular expression over the path (not strict, so one
  trailing slash is optional): a parameter \<^verbatim>\<open>:name\<close> is \<^verbatim>\<open>([^\/]+?)\<close>, one or more characters
  other than a slash, and \<^verbatim>\<open>*\<close> is \<^verbatim>\<open>(.*)\<close>. The only literal characters of the seven
  patterns are \<^verbatim>\<open>/\<close> and \<^verbatim>\<open>_\<close>, so each pattern is a condition on the pieces of the path
  between its slashes.
\<close>

definition segments :: "string \<Rightarrow> string list" where
  "segments p = js_split ''/'' p"

text \<open>\<^verbatim>\<open>_:action\<close> inside one segment: the marker and a name of at least one character.\<close>

fun action_segment :: "string \<Rightarrow> string option" where
  "action_segment [] = None"
| "action_segment (c # a) = (if c = CHR ''_'' \<and> a \<noteq> [] then Some a else None)"

text \<open>What \<^verbatim>\<open>\/?$\<close> accepts after the last parameter: the end, or one slash and the end.\<close>

definition trailing :: "string list \<Rightarrow> bool" where
  "trailing t = (t = [] \<or> t = [[]])"

text \<open>\<^verbatim>\<open>"*"\<close>, that is \<^verbatim>\<open>^(.*)\/?$\<close>.\<close>

definition match_any :: "string \<Rightarrow> unit option" where
  "match_any p = Some ()"

text \<open>\<^verbatim>\<open>"/*"\<close>, that is \<^verbatim>\<open>^\/(.*)\/?$\<close>.\<close>

definition match_root_any :: "string \<Rightarrow> unit option" where
  "match_root_any p = (case segments p of [] # x # xs \<Rightarrow> Some () | _ \<Rightarrow> None)"

text \<open>\<^verbatim>\<open>"/_:action/"\<close>, that is \<^verbatim>\<open>^\/_([^\/]+?)\/?$\<close>.\<close>

definition match_action :: "string \<Rightarrow> string option" where
  "match_action p =
     (case segments p of
        [] # s # t \<Rightarrow> if trailing t then action_segment s else None
      | _ \<Rightarrow> None)"

text \<open>\<^verbatim>\<open>"/:db_name/*"\<close>, that is \<^verbatim>\<open>^\/([^\/]+?)\/(.*)\/?$\<close>.\<close>

definition match_db_any :: "string \<Rightarrow> string option" where
  "match_db_any p =
     (case segments p of
        [] # d # x # xs \<Rightarrow> if d \<noteq> [] then Some d else None
      | _ \<Rightarrow> None)"

text \<open>\<^verbatim>\<open>"/:db_name/_:action/"\<close>, that is \<^verbatim>\<open>^\/([^\/]+?)\/_([^\/]+?)\/?$\<close>.\<close>

definition match_db_action :: "string \<Rightarrow> (string \<times> string) option" where
  "match_db_action p =
     (case segments p of
        [] # d # s # t \<Rightarrow>
          if d \<noteq> [] \<and> trailing t then map_option (\<lambda>a. (d, a)) (action_segment s) else None
      | _ \<Rightarrow> None)"

text \<open>\<^verbatim>\<open>"/:db_name/:collection_name/*"\<close>, that is \<^verbatim>\<open>^\/([^\/]+?)\/([^\/]+?)\/(.*)\/?$\<close>.\<close>

definition match_coll_any :: "string \<Rightarrow> (string \<times> string) option" where
  "match_coll_any p =
     (case segments p of
        [] # d # n # x # xs \<Rightarrow> if d \<noteq> [] \<and> n \<noteq> [] then Some (d, n) else None
      | _ \<Rightarrow> None)"

text \<open>\<^verbatim>\<open>"/:db_name/:collection_name/_:action/"\<close>, that is
  \<^verbatim>\<open>^\/([^\/]+?)\/([^\/]+?)\/_([^\/]+?)\/?$\<close>.\<close>

definition match_coll_action :: "string \<Rightarrow> (string \<times> string \<times> string) option" where
  "match_coll_action p =
     (case segments p of
        [] # d # n # s # t \<Rightarrow>
          if d \<noteq> [] \<and> n \<noteq> [] \<and> trailing t
          then map_option (\<lambda>a. (d, n, a)) (action_segment s) else None
      | _ \<Rightarrow> None)"

section \<open>The handlers\<close>

type_synonym handler = "env \<Rightarrow> request \<Rightarrow> ctx \<Rightarrow> flow \<times> ctx"

text \<open>Lines 51 to 58: arm the timer, go on.\<close>

definition arm_timeout :: handler where
  "arm_timeout e rq c = (Next, c\<lparr>timer := True\<rparr>)"

text \<open>Line 86: the message of a failed connection.\<close>

definition connection_message :: "string \<Rightarrow> string + string" where
  "connection_message m =
     (if js_includes ''MongoError'' m
      then (case js_split ''[MongoError: '' m of
              p0 # p1 # ps \<Rightarrow>
                (case js_split [CHR 0x0A] p1 of
                   l # ls \<Rightarrow> Inr (toLowerCase (join_empty (js_split ''.'' l)))
                 | [] \<Rightarrow> Inl ''Cannot read property 'split' of undefined'')
            | _ \<Rightarrow> Inl ''Cannot read property 'split' of undefined'')
      else Inr m)"

text \<open>Lines 60 to 92: the body check, the credentials, the connection.\<close>

definition connect_handler :: handler where
  "connect_handler e rq c =
     (if truthy (body rq) \<and> \<not> isArray (body rq)
      then finish (error ''invalid_body'' (Some [(''message'', Str ''body must be json array'')])
                     400 (res c)) c
      else
        (let auth = extract_auth (b64 e) (authorization rq);
             c1 = await_io During_connect e (c\<lparr>log := log c @ [Connect auth]\<rparr>)
         in case drv_connect e auth of
              Resolves u \<Rightarrow> (Next, c1\<lparr>locals_client := True\<rparr>)
            | Pending \<Rightarrow> (Stalled, c1)
            | Rejects m \<Rightarrow>
                (case connection_message m of
                   Inl ex \<Rightarrow> (Unhandled ex, c1)
                 | Inr message \<Rightarrow>
                     finish (error ''connection_failed'' (Some [(''message'', Str message)])
                               400 (res c1)) c1)))"

text \<open>
  The spread \<^verbatim>\<open>...req.body\<close> in a call: the elements of an array, the characters of a
  string, a \<^verbatim>\<open>TypeError\<close> for what cannot be iterated.
\<close>

fun spread :: "jsval \<Rightarrow> string + jsval list" where
  "spread (Arr xs) = Inr xs"
| "spread (Str s) = Inr (map (\<lambda>ch. Str [ch]) s)"
| "spread v = Inl ''req.body is not iterable''"

text \<open>
  The \<^verbatim>\<open>try\<close> block of the three action handlers (lines 99 to 100, 120 to 121, 141 to 142):
  \<^verbatim>\<open>let result = await target[action](...req.body); return res.json(await parse(result))\<close>.
  \<open>Rejects\<close> is an exception on its way to the \<^verbatim>\<open>catch\<close>.
\<close>

definition try_action :: "env \<Rightarrow> request \<Rightarrow> target option \<Rightarrow> string \<Rightarrow> ctx \<Rightarrow> unit outcome \<times> ctx" where
  "try_action e rq tgt action c =
     (case tgt of
        None \<Rightarrow> (Rejects ''Cannot read property of undefined'', c)
      | Some t \<Rightarrow>
          (case spread (body rq) of
             Inl ex \<Rightarrow> (Rejects ex, c)
           | Inr args \<Rightarrow>
               (let c1 = await_io During_invoke e (c\<lparr>log := log c @ [Invoke t action args]\<rparr>)
                in case drv_invoke e t action args of
                     Rejects m \<Rightarrow> (Rejects m, c1)
                   | Pending \<Rightarrow> (Pending, c1)
                   | Resolves result \<Rightarrow>
                       (case parse e result c1 of
                          (Rejects m, c2) \<Rightarrow> (Rejects m, c2)
                        | (Pending, c2) \<Rightarrow> (Pending, c2)
                        | (Resolves v, c2) \<Rightarrow>
                            (case res_json v (res c2) of
                               Inl ex \<Rightarrow> (Rejects ex, c2)
                             | Inr r \<Rightarrow> (Resolves (), c2\<lparr>res := r\<rparr>))))))"

text \<open>An action handler: the \<^verbatim>\<open>try\<close> block and its \<^verbatim>\<open>catch\<close> (lines 102 to 104).\<close>

definition run_action :: "target option \<Rightarrow> string \<Rightarrow> handler" where
  "run_action tgt action e rq c =
     (case try_action e rq tgt action c of
        (Resolves u, c') \<Rightarrow> (Done, c')
      | (Pending, c') \<Rightarrow> (Stalled, c')
      | (Rejects m, c') \<Rightarrow>
          finish (error ''not_found'' (Some [(''message'', Str m), (''action'', Str action)])
                    404 (res c')) c')"

text \<open>Lines 94 to 105, 115 to 126 and 136 to 147: the target is read from \<^verbatim>\<open>res.locals\<close>.\<close>

definition client_action :: "string \<Rightarrow> handler" where
  "client_action action e rq c =
     run_action (if locals_client c then Some Client else None) action e rq c"

definition database_action :: "string \<Rightarrow> handler" where
  "database_action action e rq c =
     run_action (map_option Database (locals_database c)) action e rq c"

definition collection_action :: "string \<Rightarrow> handler" where
  "collection_action action e rq c =
     run_action (map_option (\<lambda>(d, n). Collection d n) (locals_collection c)) action e rq c"

text \<open>Lines 107 to 113 and 128 to 134. Nothing catches what the driver throws here.\<close>

definition select_database :: "string \<Rightarrow> handler" where
  "select_database db_name e rq c =
     (if \<not> locals_client c then (Unhandled ''Cannot read property 'db' of undefined'', c)
      else case drv_db e db_name of
             Some ex \<Rightarrow> (Unhandled ex, c)
           | None \<Rightarrow> (Next, c\<lparr>locals_database := Some db_name\<rparr>))"

definition select_collection :: "string \<Rightarrow> handler" where
  "select_collection collection_name e rq c =
     (case locals_database c of
        None \<Rightarrow> (Unhandled ''Cannot read property 'collection' of undefined'', c)
      | Some d \<Rightarrow>
          (case drv_collection e d collection_name of
             Some ex \<Rightarrow> (Unhandled ex, c)
           | None \<Rightarrow> (Next, c\<lparr>locals_collection := Some (d, collection_name)\<rparr>)))"

text \<open>Lines 149 to 152 and 154 to 160: the two fallbacks.\<close>

definition post_fallback :: handler where
  "post_fallback e rq c =
     (if headersSent (res c) then (Done, c)
      else finish (error ''not_found'' None 404 (res c)) c)"

definition all_fallback :: handler where
  "all_fallback e rq c =
     (if headersSent (res c) then (Done, c)
      else finish (error ''method_not_allowed'' (Some [(''method'', Str (toLowerCase (req_method rq)))])
                     405 (res c)) c)"

section \<open>The router\<close>

text \<open>
  \<^verbatim>\<open>app.all\<close> takes every method; \<^verbatim>\<open>app.post\<close> takes the requests whose method, in lower
  case, is \<^verbatim>\<open>post\<close>.
\<close>

datatype verb = All | Post

definition is_post :: "request \<Rightarrow> bool" where
  "is_post rq = (toLowerCase (req_method rq) = ''post'')"

fun handles :: "verb \<Rightarrow> request \<Rightarrow> bool" where
  "handles All rq = True"
| "handles Post rq = is_post rq"

type_synonym route = "verb \<times> (string \<Rightarrow> handler option)"

text \<open>
  The nine routes of lines 51 to 160, in the order the source registers them. Express
  matches a pattern against the path as the request spells it and hands the handler each
  captured parameter decoded: \<open>d\<close> is that decoding.
\<close>

definition routes :: "(string \<Rightarrow> string) \<Rightarrow> route list" where
  "routes d =
     [(All, \<lambda>p. map_option (\<lambda>u. arm_timeout) (match_any p)),
      (Post, \<lambda>p. map_option (\<lambda>u. connect_handler) (match_root_any p)),
      (Post, \<lambda>p. map_option (\<lambda>action. client_action (d action)) (match_action p)),
      (Post, \<lambda>p. map_option (\<lambda>db_name. select_database (d db_name)) (match_db_any p)),
      (Post, \<lambda>p. map_option (\<lambda>(db_name, action). database_action (d action))
                    (match_db_action p)),
      (Post, \<lambda>p. map_option (\<lambda>(db_name, collection_name). select_collection (d collection_name))
                    (match_coll_any p)),
      (Post, \<lambda>p. map_option (\<lambda>(db_name, collection_name, action). collection_action (d action))
                    (match_coll_action p)),
      (Post, \<lambda>p. map_option (\<lambda>u. post_fallback) (match_any p)),
      (All, \<lambda>p. map_option (\<lambda>u. all_fallback) (match_any p))]"

text \<open>
  Express runs the routes that take the request's method and match its path, in order,
  for as long as each handler calls \<^verbatim>\<open>next()\<close>. The result says how the last handler
  that ran has ended.
\<close>

fun dispatch :: "route list \<Rightarrow> env \<Rightarrow> request \<Rightarrow> ctx \<Rightarrow> flow \<times> ctx" where
  "dispatch [] e rq c = (Next, c)"
| "dispatch ((v, m) # rs) e rq c =
     (if handles v rq
      then (case m (path rq) of
              None \<Rightarrow> dispatch rs e rq c
            | Some h \<Rightarrow>
                (case h e rq c of
                   (Next, c') \<Rightarrow> dispatch rs e rq c'
                 | (fl, c') \<Rightarrow> (fl, c')))
      else dispatch rs e rq c)"

text \<open>
  The routes from beginning to end for one request, and then the timer, which nothing
  cancels, if it has not run in between. Where an unhandled rejection ends the process, a
  handler that ends so ends the request: the timer never runs and nothing more is written.
\<close>

definition handle_decoded :: "(string \<Rightarrow> string) \<Rightarrow> env \<Rightarrow> request \<Rightarrow> ctx" where
  "handle_decoded d e rq =
     (case dispatch (routes d) e rq initial_ctx of
        (fl, c) \<Rightarrow>
          if rejected fl \<and> exits_on_rejection e then c
          else if timer c then on_timeout (c\<lparr>timer := False\<rparr>) else c)"

text \<open>
  The routes for a request whose path has no percent-escape: the parameters are the
  captures as they stand.
\<close>

definition handle_request :: "env \<Rightarrow> request \<Rightarrow> ctx" where
  "handle_request e rq = handle_decoded (\<lambda>s. s) e rq"

section \<open>Express before the routes\<close>

text \<open>
  What a request brings for a body: none (or one whose content type is not JSON), the JSON
  text of a value, or text that is not JSON.
\<close>

datatype payload = No_body | Json_text jsval | Not_json

text \<open>
  \<^verbatim>\<open>express.json()\<close> of line 49, with its defaults, runs for every method before any route.
  A request without a JSON body gets \<^verbatim>\<open>req.body = {}\<close>; the JSON text of an object or of an
  array gets that value; any other body is refused (\<open>None\<close>), and Express answers 400 with
  its own page.
\<close>

fun express_json :: "payload \<Rightarrow> jsval option" where
  "express_json No_body = Some (Obj [])"
| "express_json (Json_text (Arr xs)) = Some (Arr xs)"
| "express_json (Json_text (Obj kvs)) = Some (Obj kvs)"
| "express_json (Json_text v) = None"
| "express_json Not_json = None"

text \<open>The request as it arrives.\<close>

record incoming =
  in_method :: string
  in_path :: string
  in_payload :: payload
  in_authorization :: "string option"

text \<open>
  A parameter as the handler receives it. The first route, \<^verbatim>\<open>"*"\<close>, has the whole path for
  its parameter, so a path that does not decode is refused there, before any handler: Express
  answers 400 with its own page. The parameters of a path that decodes are parts of it
  between slashes, and decode.
\<close>

definition decoded :: "env \<Rightarrow> string \<Rightarrow> string" where
  "decoded e s = (case decodeURIComponent e s of None \<Rightarrow> s | Some t \<Rightarrow> t)"

datatype refusal = Body_refused | Path_refused

text \<open>
  The gateway on one request: \<^verbatim>\<open>express.json()\<close>, then the routes. \<open>Inl\<close>: Express has
  answered 400 and no handler of the source has run.
\<close>

definition serve :: "env \<Rightarrow> incoming \<Rightarrow> refusal + ctx" where
  "serve e i =
     (case express_json (in_payload i) of
        None \<Rightarrow> Inl Body_refused
      | Some b \<Rightarrow>
          (case decodeURIComponent e (in_path i) of
             None \<Rightarrow> Inl Path_refused
           | Some p \<Rightarrow>
               Inr (handle_decoded (decoded e) e
                      \<lparr>req_method = in_method i, path = in_path i, body = b,
                       authorization = in_authorization i\<rparr>)))"

text \<open>What the client receives: Express's own page, or what the handlers have written.\<close>

datatype written = Json jsval | Express_page

fun answers :: "refusal + ctx \<Rightarrow> (nat \<times> written) list" where
  "answers (Inl r) = [(400, Express_page)]"
| "answers (Inr c) = map (\<lambda>(st, b). (st, Json b)) (sent (res c))"

section \<open>A store for running the gateway on examples\<close>

text \<open>
  Base64 as RFC 4648 has it, for well-formed text: four characters of the alphabet give three
  bytes, and padding ends the text. The bytes are taken as the UTF-8 text they encode.
\<close>

definition base64_alphabet :: string where
  "base64_alphabet = ''ABCDEFGHIJKLMNOPQRSTUVWXYZabcdefghijklmnopqrstuvwxyz0123456789+/''"

fun index_of :: "'a \<Rightarrow> 'a list \<Rightarrow> nat option" where
  "index_of x [] = None"
| "index_of x (y # ys) = (if x = y then Some 0 else map_option Suc (index_of x ys))"

fun sextets_to_bytes :: "nat list \<Rightarrow> nat list" where
  "sextets_to_bytes (a # b # c # d # rest) =
     (a * 4 + b div 16) # ((b mod 16) * 16 + c div 4) # ((c mod 4) * 64 + d)
       # sextets_to_bytes rest"
| "sextets_to_bytes [a, b, c] = [a * 4 + b div 16, (b mod 16) * 16 + c div 4]"
| "sextets_to_bytes [a, b] = [a * 4 + b div 16]"
| "sextets_to_bytes xs = []"

definition base64_decode :: "string \<Rightarrow> string" where
  "base64_decode s =
     map char_of
       (sextets_to_bytes
         (List.map_filter (\<lambda>c. index_of c base64_alphabet) (takeWhile (\<lambda>c. c \<noteq> CHR ''='') s)))"

text \<open>
  Percent-decoding as \<^verbatim>\<open>decodeURIComponent\<close> does it, on text as bytes: \<^verbatim>\<open>%\<close> and two
  hexadecimal digits give one byte, any other character stands for itself, and the escaped
  bytes from 128 on must come in well-formed UTF-8 sequences. \<open>None\<close> is \<^verbatim>\<open>URIError\<close>.
\<close>

definition hex_value :: "char \<Rightarrow> nat option" where
  "hex_value c =
     (if CHR ''0'' \<le> c \<and> c \<le> CHR ''9'' then Some (of_char c - 48)
      else if CHR ''a'' \<le> c \<and> c \<le> CHR ''f'' then Some (of_char c - 87)
      else if CHR ''A'' \<le> c \<and> c \<le> CHR ''F'' then Some (of_char c - 55)
      else None)"

text \<open>The characters of the text: an escape with its byte, or a character as it stands.\<close>

fun escapes :: "string \<Rightarrow> (bool \<times> nat) list option" where
  "escapes [] = Some []"
| "escapes (c # cs) =
     (if c = CHR ''%''
      then (case cs of
              h # l # rest \<Rightarrow>
                (case (hex_value h, hex_value l) of
                   (Some x, Some y) \<Rightarrow> map_option ((#) (True, 16 * x + y)) (escapes rest)
                 | _ \<Rightarrow> None)
            | _ \<Rightarrow> None)
      else map_option ((#) (False, of_char c)) (escapes cs))"

definition continuation :: "nat \<Rightarrow> nat \<Rightarrow> (bool \<times> nat) \<Rightarrow> bool" where
  "continuation lo hi t = (fst t \<and> lo \<le> snd t \<and> snd t \<le> hi)"

fun utf8_escapes :: "(bool \<times> nat) list \<Rightarrow> bool" where
  "utf8_escapes [] = True"
| "utf8_escapes ((esc, b) # ts) =
     (if \<not> esc \<or> b < 128 then utf8_escapes ts
      else if 194 \<le> b \<and> b \<le> 223
      then (case ts of
              t1 # ts' \<Rightarrow> continuation 128 191 t1 \<and> utf8_escapes ts'
            | _ \<Rightarrow> False)
      else if 224 \<le> b \<and> b \<le> 239
      then (case ts of
              t1 # t2 # ts' \<Rightarrow>
                continuation (if b = 224 then 160 else 128) (if b = 237 then 159 else 191) t1
                \<and> continuation 128 191 t2 \<and> utf8_escapes ts'
            | _ \<Rightarrow> False)
      else if 240 \<le> b \<and> b \<le> 244
      then (case ts of
              t1 # t2 # t3 # ts' \<Rightarrow>
                continuation (if b = 240 then 144 else 128) (if b = 244 then 143 else 191) t1
                \<and> continuation 128 191 t2 \<and> continuation 128 191 t3 \<and> utf8_escapes ts'
            | _ \<Rightarrow> False)
      else False)"

definition percent_decode :: "string \<Rightarrow> string option" where
  "percent_decode s =
     (case escapes s of
        None \<Rightarrow> None
      | Some ts \<Rightarrow> if utf8_escapes ts then Some (map (\<lambda>t. char_of (snd t)) ts) else None)"

text \<open>
  A driver that accepts every connection and every name and answers every action with the
  array of the arguments it was given, with \<^verbatim>\<open>fclone\<close> as the identity and the deadline
  after the handlers, on a runtime that an unhandled rejection ends.
\<close>

definition store_ok :: env where
  "store_ok =
     \<lparr>drv_connect = (\<lambda>auth. Resolves ()),
      drv_db = (\<lambda>d. None),
      drv_collection = (\<lambda>d n. None),
      drv_invoke = (\<lambda>t a args. Resolves (Arr args)),
      fclone = (\<lambda>v. v),
      b64 = base64_decode,
      deadline = After_completion,
      decodeURIComponent = percent_decode,
      exits_on_rejection = True\<rparr>"

definition post :: "string \<Rightarrow> jsval \<Rightarrow> request" where
  "post p b = \<lparr>req_method = ''POST'', path = p, body = b, authorization = None\<rparr>"

text \<open>A request arriving with this method, path and body, and no credentials.\<close>

definition arriving :: "string \<Rightarrow> string \<Rightarrow> payload \<Rightarrow> incoming" where
  "arriving m p b = \<lparr>in_method = m, in_path = p, in_payload = b, in_authorization = None\<rparr>"

section \<open>Notions used to state the properties\<close>

text \<open>A path segment: at least one character, none of them a slash.\<close>

definition segment :: "string \<Rightarrow> bool" where
  "segment s = (s \<noteq> [] \<and> CHR ''/'' \<notin> set s)"

text \<open>
  The path \<^verbatim>\<open>/s1/.../sk/_a\<close>, with a final slash or without: the segments \<open>pre\<close> and then the
  action segment for the action \<open>a\<close>.
\<close>

definition action_path :: "string list \<Rightarrow> string \<Rightarrow> bool \<Rightarrow> string" where
  "action_path pre a slash =
     concat (map (\<lambda>s. CHR ''/'' # s) (pre @ [CHR ''_'' # a] @ (if slash then [[]] else [])))"

text \<open>The target for the segments before the action: none, a database, a collection.\<close>

fun target_for :: "string list \<Rightarrow> target option" where
  "target_for [] = Some Client"
| "target_for [d] = Some (Database d)"
| "target_for [d, n] = Some (Collection d n)"
| "target_for pre = None"

text \<open>The driver takes the database name and the collection name of these segments.\<close>

fun names_accepted :: "env \<Rightarrow> string list \<Rightarrow> bool" where
  "names_accepted e [] = True"
| "names_accepted e [d] = (drv_db e d = None)"
| "names_accepted e (d # n # ns) = (drv_db e d = None \<and> drv_collection e d n = None)"

text \<open>The invocations of a log: on which target, which action.\<close>

fun invoked :: "event list \<Rightarrow> (target \<times> string) list" where
  "invoked [] = []"
| "invoked (Invoke t a args # evs) = (t, a) # invoked evs"
| "invoked (ev # evs) = invoked evs"



text \<open>The five kinds of failure and the status of each.\<close>

definition error_kinds :: "(string \<times> nat) list" where
  "error_kinds = [(''invalid_body'', 400), (''connection_failed'', 400), (''not_found'', 404),
                  (''timeout'', 500), (''method_not_allowed'', 405)]"

text \<open>A response that is an error envelope of one of the five kinds, sent under its status.\<close>

definition failure_response :: "nat \<times> jsval \<Rightarrow> bool" where
  "failure_response x =
     (\<exists>reason context. (reason, fst x) \<in> set error_kinds
                       \<and> snd x = envelope reason context (fst x))"

text \<open>
  The invariant on what has been written: before the headers are out the status is still
  200, and every response written went out under 200 or is a failure response.
\<close>

definition responses_ok :: "ctx \<Rightarrow> bool" where
  "responses_ok c =
     ((headersSent (res c) \<or> statusCode (res c) = 200)
      \<and> list_all (\<lambda>x. fst x = 200 \<or> failure_response x) (sent (res c)))"

text \<open>What the client has received when the timer answered.\<close>

definition timeout_sent :: "(nat \<times> jsval) list" where
  "timeout_sent =
     [(500, Obj [(''error'', Obj [(''reason'', Str ''timeout''), (''status'', Num 500)])])]"

text \<open>
  The invariant of a request under way: the headers are out exactly when a body has been
  written, at most one body has been written, the timer is pending or the response is out,
  and after the timer has answered the one body is its.
\<close>

definition answered_once :: "ctx \<Rightarrow> bool" where
  "answered_once c =
     ((headersSent (res c) = (sent (res c) \<noteq> []))
      \<and> length (sent (res c)) \<le> 1
      \<and> (timer c \<or> headersSent (res c))
      \<and> (if Timed_out \<in> set (log c) then sent (res c) = timeout_sent else True))"

section \<open>Objects and the error envelope\<close>

lemma obj_get_set_same: "obj_get k (obj_set k v kvs) = v"
  by (induction kvs) auto

lemma obj_get_set_other: "k \<noteq> k' \<Longrightarrow> obj_get k (obj_set k' v kvs) = obj_get k kvs"
  by (induction kvs) auto

lemma obj_get_fold_set:
  "obj_get k (fold (\<lambda>(k, v). obj_set k v) kvs base) =
     (case map_of (rev kvs) k of Some v \<Rightarrow> v | None \<Rightarrow> obj_get k base)"
proof (induction kvs arbitrary: base)
  case Nil
  show ?case by simp
next
  case (Cons kv kvs)
  obtain k' v' where kv: "kv = (k', v')" by (cases kv)
  show ?case
    by (cases "map_of (rev kvs) k")
       (auto simp: kv Cons.IH map_add_def obj_get_set_same obj_get_set_other)
qed

text \<open>
  C10. A failure response that \<^verbatim>\<open>error\<close> writes (the headers were not out) is
  \<^verbatim>\<open>{ error: { reason, ...context, status } }\<close>, sent under the status code \<open>status\<close>, and the
  field \<open>status\<close> of the envelope is that same number, whatever the context holds; the other
  fields are those of the context, and \<open>reason\<close> where the context has none. This holds for
  every reason and status, so for the five kinds of the source.
\<close>

theorem error_envelope_status:
  assumes "\<not> headersSent r"
  shows "error reason context status r =
           (Inr (Obj [(''error'', Obj (error_fields reason context status))]),
            r\<lparr>statusCode := status, headersSent := True,
              sent := sent r @ [(status, Obj [(''error'', Obj (error_fields reason context status))])]\<rparr>)
         \<and> obj_get ''status'' (error_fields reason context status) = Num (int status)
         \<and> (\<forall>k. k \<noteq> ''status'' \<longrightarrow>
               obj_get k (error_fields reason context status) =
                 (case map_of (rev (spread_props context)) k of
                    Some v \<Rightarrow> v
                  | None \<Rightarrow> if k = ''reason'' then Str reason else Undefined))"
proof -
  have "obj_get k (error_fields reason context status) =
          (case map_of (rev (spread_props context)) k of
             Some v \<Rightarrow> v
           | None \<Rightarrow> if k = ''reason'' then Str reason else Undefined)"
    if "k \<noteq> ''status''" for k
    using that
    by (auto simp: error_fields_def obj_get_set_other obj_get_fold_set split: option.splits)
  moreover have "obj_get ''status'' (error_fields reason context status) = Num (int status)"
    by (simp add: error_fields_def obj_get_set_same)
  ultimately show ?thesis
    using assms by (simp add: error_def envelope_def res_json_def res_status_def Let_def)
qed

theorem error_envelope_status_witness:
  "\<not> headersSent fresh_response
   \<and> error ''not_found'' (Some [(''message'', Str ''boom''), (''action'', Str ''find'')]) 404
       fresh_response =
       (Inr (Obj [(''error'', Obj [(''reason'', Str ''not_found''), (''message'', Str ''boom''),
                                   (''action'', Str ''find''), (''status'', Num 404)])]),
        \<lparr>statusCode = 404, headersSent = True,
         sent = [(404, Obj [(''error'', Obj [(''reason'', Str ''not_found''),
                                             (''message'', Str ''boom''),
                                             (''action'', Str ''find''),
                                             (''status'', Num 404)])])]\<rparr>)"
proof -
  have h: "\<not> headersSent fresh_response"
    by (simp add: fresh_response_def)
  have f: "error_fields ''not_found'' (Some [(''message'', Str ''boom''), (''action'', Str ''find'')]) 404
             = [(''reason'', Str ''not_found''), (''message'', Str ''boom''),
                (''action'', Str ''find''), (''status'', Num 404)]"
    by (simp add: error_fields_def spread_props_def)
  show ?thesis
    using h error_envelope_status [OF h, of "''not_found''"
            "Some [(''message'', Str ''boom''), (''action'', Str ''find'')]" 404]
    by (simp add: f fresh_response_def)
qed


section \<open>Splitting at one character\<close>

lemma js_split_single_nonempty: "js_split [s] xs \<noteq> []"
  by (induction xs) (auto split: list.splits)

lemma js_split_single_other:
  "c \<noteq> s \<Longrightarrow> js_split [s] (c # xs) = (c # hd (js_split [s] xs)) # tl (js_split [s] xs)"
  using js_split_single_nonempty [of s xs] by (auto split: list.splits)

lemma js_split_single_piece: "s \<notin> set p \<Longrightarrow> js_split [s] (p @ s # xs) = p # js_split [s] xs"
  by (induction p) (auto simp: js_split_single_other)

lemma js_split_single_last: "s \<notin> set p \<Longrightarrow> js_split [s] p = [p]"
  by (induction p) (auto simp: js_split_single_other)

lemma js_split_pieces:
  "s \<notin> set x \<Longrightarrow> \<forall>y \<in> set ys. s \<notin> set y \<Longrightarrow>
   js_split [s] (x @ concat (map (\<lambda>y. s # y) ys)) = x # ys"
proof (induction ys arbitrary: x)
  case Nil
  then show ?case by (simp add: js_split_single_last)
next
  case (Cons y ys)
  then show ?case by (simp add: js_split_single_piece del: js_split.simps)
qed

section \<open>Paths and patterns\<close>

lemma segments_absolute: "\<exists>x xs. segments (CHR ''/'' # p) = [] # x # xs"
  using js_split_single_nonempty [of "CHR ''/''" p]
  by (cases "js_split ''/'' p") (auto simp: segments_def)

lemma match_root_any_absolute: "match_root_any (CHR ''/'' # p) = Some ()"
  using segments_absolute [of p] by (auto simp: match_root_any_def)

lemma segments_action_path:
  assumes "\<forall>s \<in> set pre. CHR ''/'' \<notin> set s" and "CHR ''/'' \<notin> set a"
  shows "segments (action_path pre a slash) =
           [] # pre @ [CHR ''_'' # a] @ (if slash then [[]] else [])"
  using assms
    js_split_pieces [of "CHR ''/''" "[]" "pre @ [CHR ''_'' # a] @ (if slash then [[]] else [])"]
  by (auto simp: segments_def action_path_def simp del: js_split.simps)







text \<open>
  The strings each pattern takes, spelled out: they are the strings of the pattern's
  regular expression.
\<close>

lemma js_split_single_inv:
  "js_split [s] p = x # ys \<Longrightarrow>
   s \<notin> set x \<and> (if ys = [] then p = x else \<exists>p'. p = x @ s # p' \<and> js_split [s] p' = ys)"
proof (induction p arbitrary: x ys)
  case Nil
  then show ?case by simp
next
  case (Cons c cs)
  show ?case
  proof (cases "c = s")
    case True
    with Cons.prems show ?thesis
      using js_split_single_nonempty [of s cs] by auto
  next
    case False
    obtain x' ys' where r: "js_split [s] cs = x' # ys'"
      using js_split_single_nonempty [of s cs] by (cases "js_split [s] cs") auto
    from Cons.IH [OF r] False Cons.prems r show ?thesis
      by (auto split: if_splits)
  qed
qed

lemma segments_last: "segments p = [x] \<Longrightarrow> p = x \<and> CHR ''/'' \<notin> set x"
  using js_split_single_inv [of "CHR ''/''" p x "[]"] by (simp add: segments_def)

lemma segments_Cons:
  "segments p = x # y # ys \<Longrightarrow> \<exists>p'. p = x @ CHR ''/'' # p' \<and> segments p' = y # ys \<and> CHR ''/'' \<notin> set x"
  using js_split_single_inv [of "CHR ''/''" p x "y # ys"] by (auto simp: segments_def)

lemma segments_piece: "CHR ''/'' \<notin> set x \<Longrightarrow> segments (x @ CHR ''/'' # p) = x # segments p"
  by (simp add: segments_def js_split_single_piece del: js_split.simps)

lemma segments_one: "CHR ''/'' \<notin> set x \<Longrightarrow> segments x = [x]"
  by (simp add: segments_def js_split_single_last del: js_split.simps)

lemma segments_nonempty: "segments p \<noteq> []"
  by (simp add: segments_def js_split_single_nonempty del: js_split.simps)

lemma match_root_any_shape: "match_root_any p = Some () \<longleftrightarrow> (\<exists>r. p = CHR ''/'' # r)"
proof
  assume "match_root_any p = Some ()"
  then obtain x xs where "segments p = [] # x # xs"
    by (auto simp: match_root_any_def split: list.splits)
  from segments_Cons [OF this] show "\<exists>r. p = CHR ''/'' # r" by auto
next
  assume "\<exists>r. p = CHR ''/'' # r"
  then show "match_root_any p = Some ()"
    using match_root_any_absolute by auto
qed

lemma trailing_shape: "segments t = x # ts \<Longrightarrow> trailing ts \<longleftrightarrow> (t = x \<or> t = x @ ''/'')"
proof (cases ts)
  case Nil
  assume "segments t = x # ts"
  with Nil segments_last [of t x] show ?thesis
    by (auto simp: trailing_def)
next
  case (Cons y ys)
  assume s: "segments t = x # ts"
  with Cons segments_Cons [of t x y ys] obtain p'
    where p': "t = x @ CHR ''/'' # p'" "segments p' = y # ys" "CHR ''/'' \<notin> set x" by auto
  show ?thesis
  proof
    assume "trailing ts"
    with Cons have "y = []" "ys = []" by (auto simp: trailing_def)
    with p'(2) segments_last [of p' "[]"] have "p' = []" by simp
    with p' show "t = x \<or> t = x @ ''/''" by simp
  next
    assume "t = x \<or> t = x @ ''/''"
    with p' have "p' = []" by auto
    with p'(2) Cons show "trailing ts" by (simp add: segments_def trailing_def)
  qed
qed

lemma action_segment_shape: "action_segment s = Some a \<longleftrightarrow> s = CHR ''_'' # a \<and> a \<noteq> []"
  by (cases s) auto

lemma match_action_shape:
  "match_action p = Some a \<longleftrightarrow>
     segment a \<and> (p = ''/_'' @ a \<or> p = ''/_'' @ a @ ''/'')"
proof
  assume m: "match_action p = Some a"
  then obtain s t where sg: "segments p = [] # s # t" and tr: "trailing t" and a: "action_segment s = Some a"
    by (auto simp: match_action_def split: list.splits if_splits)
  from segments_Cons [OF sg] obtain p' where p': "p = CHR ''/'' # p'" "segments p' = s # t" by auto
  from trailing_shape [OF p'(2)] tr have "p' = s \<or> p' = s @ ''/''" by simp
  moreover from segments_Cons [of p' s] segments_last [of p' s] p'(2) have "CHR ''/'' \<notin> set s"
    by (cases t) auto
  ultimately show "segment a \<and> (p = ''/_'' @ a \<or> p = ''/_'' @ a @ ''/'')"
    using a p'(1) by (auto simp: action_segment_shape segment_def)
next
  assume r: "segment a \<and> (p = ''/_'' @ a \<or> p = ''/_'' @ a @ ''/'')"
  then have n: "CHR ''/'' \<notin> set (CHR ''_'' # a)" by (auto simp: segment_def)
  from r have "segments p = [[], CHR ''_'' # a] \<or> segments p = [[], CHR ''_'' # a, []]"
    using segments_piece [of "[]" "CHR ''_'' # a"] segments_one [OF n]
      segments_piece [of "[]" "(CHR ''_'' # a) @ ''/''"] segments_piece [OF n, of "[]"]
      segments_one [of "[]"]
    by auto
  with r show "match_action p = Some a"
    by (auto simp: match_action_def trailing_def segment_def)
qed


lemma segments_peel:
  "segments p = [] # d # y # ys \<longleftrightarrow>
     CHR ''/'' \<notin> set d \<and> (\<exists>q. p = CHR ''/'' # d @ q \<and> segments q = [] # y # ys)"
proof
  assume sg: "segments p = [] # d # y # ys"
  from segments_Cons [OF sg] obtain p1 where p1: "p = CHR ''/'' # p1" "segments p1 = d # y # ys"
    by auto
  from segments_Cons [OF p1(2)] obtain p2
    where p2: "p1 = d @ CHR ''/'' # p2" "segments p2 = y # ys" "CHR ''/'' \<notin> set d"
    by auto
  have "segments (CHR ''/'' # p2) = [] # y # ys"
    using segments_piece [of "[]" p2] p2(2) by simp
  with p1(1) p2 show "CHR ''/'' \<notin> set d \<and> (\<exists>q. p = CHR ''/'' # d @ q \<and> segments q = [] # y # ys)"
    by auto
next
  assume r: "CHR ''/'' \<notin> set d \<and> (\<exists>q. p = CHR ''/'' # d @ q \<and> segments q = [] # y # ys)"
  then obtain q where q: "p = CHR ''/'' # d @ q" "segments q = [] # y # ys" by auto
  from segments_Cons [OF q(2)] obtain q' where q': "q = CHR ''/'' # q'" "segments q' = y # ys"
    by auto
  have "segments (d @ CHR ''/'' # q') = d # y # ys"
    using r q'(2) by (simp add: segments_piece)
  then show "segments p = [] # d # y # ys"
    using segments_piece [of "[]" "d @ CHR ''/'' # q'"] q(1) q'(1) by simp
qed

lemma match_root_any_iff: "match_root_any p = Some () \<longleftrightarrow> (\<exists>y ys. segments p = [] # y # ys)"
  by (auto simp: match_root_any_def split: list.splits)

lemma match_action_iff:
  "match_action p = Some a \<longleftrightarrow>
     (\<exists>s t. segments p = [] # s # t \<and> trailing t \<and> action_segment s = Some a)"
  by (auto simp: match_action_def split: list.splits)

lemma match_db_any_iff:
  "match_db_any p = Some d \<longleftrightarrow> d \<noteq> [] \<and> (\<exists>y ys. segments p = [] # d # y # ys)"
  by (auto simp: match_db_any_def split: list.splits)

lemma match_db_action_iff:
  "match_db_action p = Some (d, a) \<longleftrightarrow>
     d \<noteq> [] \<and> (\<exists>s t. segments p = [] # d # s # t \<and> trailing t \<and> action_segment s = Some a)"
  by (auto simp: match_db_action_def split: list.splits)

lemma match_coll_any_iff:
  "match_coll_any p = Some (d, n) \<longleftrightarrow>
     d \<noteq> [] \<and> n \<noteq> [] \<and> (\<exists>y ys. segments p = [] # d # n # y # ys)"
  by (auto simp: match_coll_any_def split: list.splits)

lemma match_coll_action_iff:
  "match_coll_action p = Some (d, n, a) \<longleftrightarrow>
     d \<noteq> [] \<and> n \<noteq> []
     \<and> (\<exists>s t. segments p = [] # d # n # s # t \<and> trailing t \<and> action_segment s = Some a)"
  by (auto simp: match_coll_action_def split: list.splits)

lemma match_db_any_peel:
  "match_db_any p = Some d \<longleftrightarrow>
     segment d \<and> (\<exists>q. p = CHR ''/'' # d @ q \<and> match_root_any q = Some ())"
  unfolding match_db_any_iff match_root_any_iff segments_peel segment_def by blast

lemma match_db_action_peel:
  "match_db_action p = Some (d, a) \<longleftrightarrow>
     segment d \<and> (\<exists>q. p = CHR ''/'' # d @ q \<and> match_action q = Some a)"
  unfolding match_db_action_iff match_action_iff segments_peel segment_def by blast

lemma match_coll_any_peel:
  "match_coll_any p = Some (d, n) \<longleftrightarrow>
     segment d \<and> (\<exists>q. p = CHR ''/'' # d @ q \<and> match_db_any q = Some n)"
  unfolding match_coll_any_iff match_db_any_iff segments_peel segment_def by blast

lemma match_coll_action_peel:
  "match_coll_action p = Some (d, n, a) \<longleftrightarrow>
     segment d \<and> (\<exists>q. p = CHR ''/'' # d @ q \<and> match_db_action q = Some (n, a))"
  unfolding match_coll_action_iff match_db_action_iff segments_peel segment_def by blast

lemma match_db_any_shape:
  "match_db_any p = Some d \<longleftrightarrow> segment d \<and> (\<exists>r. p = ''/'' @ d @ ''/'' @ r)"
  by (auto simp: match_db_any_peel match_root_any_shape)

lemma match_db_action_shape:
  "match_db_action p = Some (d, a) \<longleftrightarrow>
     segment d \<and> segment a \<and> (p = ''/'' @ d @ ''/_'' @ a \<or> p = ''/'' @ d @ ''/_'' @ a @ ''/'')"
  by (auto simp: match_db_action_peel match_action_shape)

lemma match_coll_any_shape:
  "match_coll_any p = Some (d, n) \<longleftrightarrow>
     segment d \<and> segment n \<and> (\<exists>r. p = ''/'' @ d @ ''/'' @ n @ ''/'' @ r)"
  by (auto simp: match_coll_any_peel match_db_any_shape)

lemma match_coll_action_shape:
  "match_coll_action p = Some (d, n, a) \<longleftrightarrow>
     segment d \<and> segment n \<and> segment a
     \<and> (p = ''/'' @ d @ ''/'' @ n @ ''/_'' @ a \<or> p = ''/'' @ d @ ''/'' @ n @ ''/_'' @ a @ ''/'')"
  by (auto simp: match_coll_action_peel match_db_action_shape)

section \<open>One step of the router\<close>

lemma dispatch_step:
  "dispatch ((v, m) # rs) e rq c =
     (if handles v rq
      then (case m (path rq) of
              None \<Rightarrow> dispatch rs e rq c
            | Some h \<Rightarrow> if fst (h e rq c) = Next then dispatch rs e rq (snd (h e rq c))
                        else h e rq c)
      else dispatch rs e rq c)"
  by (cases "m (path rq)") (auto split: prod.splits flow.splits)

lemma fst_finish: "fst (finish er c) \<noteq> Next"
  by (simp add: finish_def split: prod.splits sum.splits)

lemma fst_run_action: "fst (run_action tgt a e rq c) \<noteq> Next"
  by (simp add: run_action_def fst_finish split: prod.splits outcome.splits)

lemmas run_defs =
  handle_request_def handle_decoded_def routes_def match_any_def arm_timeout_def connect_handler_def
  client_action_def database_action_def collection_action_def select_database_def
  select_collection_def post_fallback_def all_fallback_def run_action_def try_action_def
  parse_def await_io_def on_timeout_def finish_def error_def envelope_def error_fields_def
  spread_props_def res_json_def res_status_def initial_ctx_def fresh_response_def Let_def

lemmas match_defs =
  match_root_any_def match_action_def match_db_any_def match_db_action_def
  match_coll_any_def match_coll_action_def trailing_def segments_def

lemma lower_POST: "toLowerCase ''POST'' = ''post''"
  by code_simp

lemma lower_GET: "toLowerCase ''GET'' = ''get''"
  by code_simp

lemmas example_defs =
  store_ok_def post_def is_post_def lower_POST lower_GET extract_auth_def

text \<open>Text without \<^verbatim>\<open>%\<close> decodes to itself.\<close>

lemma escapes_plain:
  "CHR ''%'' \<notin> set s \<Longrightarrow> escapes s = Some (map (\<lambda>c. (False, of_char c)) s)"
  by (induction s) auto

lemma utf8_escapes_plain: "utf8_escapes (map (\<lambda>c. (False, f c)) s)"
  by (induction s) auto

lemma percent_decode_plain: "CHR ''%'' \<notin> set s \<Longrightarrow> percent_decode s = Some s"
  by (simp add: percent_decode_def escapes_plain utf8_escapes_plain comp_def)

lemma percent_decode_lone: "percent_decode ''/%'' = None"
  by (simp add: percent_decode_def)

section \<open>Requests that are not POST\<close>

text \<open>The routes on a request that is not POST: the timer's route, and the last one.\<close>

lemma routes_non_post:
  assumes "\<not> is_post rq"
  shows "res (handle_decoded d e rq) =
           \<lparr>statusCode = 405, headersSent = True,
            sent = [(405, Obj [(''error'', Obj [(''reason'', Str ''method_not_allowed''),
                                                (''method'', Str (toLowerCase (req_method rq))),
                                                (''status'', Num 405)])])]\<rparr>"
  using assms by (simp add: run_defs)

text \<open>
  C8, as amended. A request whose method is not POST, whose body \<^verbatim>\<open>express.json()\<close> does not
  refuse and whose path decodes is answered, on any such path, with any store and any
  timing, 405 with the envelope \<^verbatim>\<open>method_not_allowed\<close>, which carries the method in lower
  case.
\<close>

theorem non_post_method_not_allowed:
  assumes "toLowerCase (in_method i) \<noteq> ''post''"
    and "express_json (in_payload i) = Some b"
    and "decodeURIComponent e (in_path i) = Some p"
  shows "answers (serve e i) =
           [(405, Json (Obj [(''error'', Obj [(''reason'', Str ''method_not_allowed''),
                                              (''method'', Str (toLowerCase (in_method i))),
                                              (''status'', Num 405)])]))]"
proof -
  let ?rq = "\<lparr>req_method = in_method i, path = in_path i, body = b,
              authorization = in_authorization i\<rparr>"
  have "\<not> is_post ?rq"
    using assms(1) by (simp add: is_post_def)
  from routes_non_post [OF this, of "decoded e" e] assms(2,3) show ?thesis
    by (simp add: serve_def)
qed

theorem non_post_method_not_allowed_witness:
  "toLowerCase (in_method (arriving ''GET'' ''/mydb/users/_find/'' No_body)) \<noteq> ''post''
   \<and> express_json (in_payload (arriving ''GET'' ''/mydb/users/_find/'' No_body)) = Some (Obj [])
   \<and> decodeURIComponent store_ok (in_path (arriving ''GET'' ''/mydb/users/_find/'' No_body))
       = Some ''/mydb/users/_find/''
   \<and> answers (serve store_ok (arriving ''GET'' ''/mydb/users/_find/'' No_body)) =
         [(405, Json (Obj [(''error'', Obj [(''reason'', Str ''method_not_allowed''),
                                            (''method'', Str ''get''),
                                            (''status'', Num 405)])]))]"
proof -
  let ?i = "arriving ''GET'' ''/mydb/users/_find/'' No_body"
  have h1: "toLowerCase (in_method ?i) \<noteq> ''post''"
    by (simp add: arriving_def lower_GET)
  have h2: "express_json (in_payload ?i) = Some (Obj [])"
    by (simp add: arriving_def)
  have h3: "decodeURIComponent store_ok (in_path ?i) = Some ''/mydb/users/_find/''"
    by (simp add: arriving_def store_ok_def percent_decode_plain)
  show ?thesis
    using h1 h2 h3 non_post_method_not_allowed [OF h1 h2 h3]
    by (simp add: arriving_def lower_GET)
qed

text \<open>
  C8 as the claim states it fails on a \<^verbatim>\<open>GET\<close> that carries a body which is not JSON, and on
  a \<^verbatim>\<open>GET\<close> of the path \<^verbatim>\<open>/%\<close>, which does not decode: Express answers each 400 with its own
  page, and the route of line 154 does not run.
\<close>

theorem refused_request_express_page:
  "toLowerCase (in_method (arriving ''GET'' ''/mydb/users/_find/'' Not_json)) \<noteq> ''post''
   \<and> answers (serve store_ok (arriving ''GET'' ''/mydb/users/_find/'' Not_json))
       = [(400, Express_page)]
   \<and> answers (serve store_ok (arriving ''GET'' ''/%'' No_body)) = [(400, Express_page)]"
  by (simp add: serve_def arriving_def lower_GET store_ok_def percent_decode_lone)

section \<open>The body check\<close>



section \<open>Paths without an action segment\<close>






section \<open>The dispatch target\<close>

lemma invoked_append: "invoked (xs @ ys) = invoked xs @ invoked ys"
  by (induction xs rule: invoked.induct) auto

lemma invoked_on_timeout: "invoked (log (on_timeout c)) = invoked (log c)"
  by (simp add: on_timeout_def invoked_append)

lemma invoked_await_io: "invoked (log (await_io p e c)) = invoked (log c)"
  by (simp add: await_io_def invoked_on_timeout)

lemma log_finish: "log (snd (finish er c)) = log c"
  by (simp add: finish_def split: prod.splits sum.splits)

lemma invoked_parse: "invoked (log (snd (parse e v c))) = invoked (log c)"
  by (simp add: parse_def invoked_await_io Let_def
      split: sum.splits bool.splits jsval.splits outcome.splits)

lemma invoked_try_action:
  "invoked (log (snd (try_action e rq tgt a c))) =
     invoked (log c) @
       (case tgt of
          None \<Rightarrow> []
        | Some t \<Rightarrow> (case spread (body rq) of Inl ex \<Rightarrow> [] | Inr args \<Rightarrow> [(t, a)]))"
proof -
  have p: "invoked (log c2) = invoked (log c1)" if "parse e v c1 = (r, c2)" for v c1 r c2
    using invoked_parse [of e v c1] that by simp
  show ?thesis
    by (auto simp: try_action_def invoked_await_io invoked_append Let_def dest: p
        split: option.splits sum.splits outcome.splits prod.splits)
qed

lemma invoked_run_action:
  "invoked (log (snd (run_action tgt a e rq c))) =
     invoked (log c) @
       (case tgt of
          None \<Rightarrow> []
        | Some t \<Rightarrow> (case spread (body rq) of Inl ex \<Rightarrow> [] | Inr args \<Rightarrow> [(t, a)]))"
  using invoked_try_action [of e rq tgt a c]
  by (auto simp: run_action_def log_finish split: prod.splits outcome.splits)

lemma invoked_connect_handler: "invoked (log (snd (connect_handler e rq c))) = invoked (log c)"
  by (simp add: connect_handler_def log_finish invoked_await_io invoked_append Let_def
      split: outcome.splits sum.splits)

lemma locals_on_timeout:
  "locals_client (on_timeout c) = locals_client c"
  "locals_database (on_timeout c) = locals_database c"
  "locals_collection (on_timeout c) = locals_collection c"
  by (simp_all add: on_timeout_def)

lemma locals_await_io:
  "locals_client (await_io p e c) = locals_client c"
  "locals_database (await_io p e c) = locals_database c"
  "locals_collection (await_io p e c) = locals_collection c"
  by (simp_all add: await_io_def locals_on_timeout)

lemma locals_connect_handler:
  assumes "fst (connect_handler e rq c) = Next"
  shows "locals_client (snd (connect_handler e rq c))"
    and "locals_database (snd (connect_handler e rq c)) = locals_database c"
    and "locals_collection (snd (connect_handler e rq c)) = locals_collection c"
  using assms
  by (auto simp: connect_handler_def fst_finish locals_await_io Let_def
      split: outcome.splits sum.splits if_splits)

lemmas walk_defs =
  handle_request_def handle_decoded_def case_prod_beta routes_def dispatch_step match_any_def arm_timeout_def
  match_root_any_def match_action_def match_db_any_def match_db_action_def
  match_coll_any_def match_coll_action_def select_collection_def collection_action_def
  select_database_def database_action_def client_action_def trailing_def segment_def
  invoked_run_action invoked_on_timeout fst_run_action Let_def

lemma connect_handler_next:
  assumes "\<not> (truthy (body rq) \<and> \<not> isArray (body rq))"
    and "drv_connect e (extract_auth (b64 e) (authorization rq)) = Resolves ()"
  shows "fst (connect_handler e rq c) = Next"
  using assms by (auto simp: connect_handler_def Let_def)

text \<open>When the request gets through to the action handler, it makes the one invocation.\<close>

lemma invocation_made:
  assumes "is_post rq" and "path rq = action_path pre a slash"
    and "\<forall>s \<in> set pre. segment s" and "segment a" and "target_for pre = Some t"
    and "body rq = Arr args"
    and "drv_connect e (extract_auth (b64 e) (authorization rq)) = Resolves ()"
    and "names_accepted e pre"
  shows "invoked (log (handle_request e rq)) = [(t, a)]"
proof -
  have seg: "segments (path rq) = [] # pre @ [CHR ''_'' # a] @ (if slash then [[]] else [])"
    using assms by (simp add: segments_action_path segment_def)
  define c0 where "c0 = initial_ctx\<lparr>timer := True\<rparr>"
  define c1 where "c1 = snd (connect_handler e rq c0)"
  have nx: "fst (connect_handler e rq c0) = Next"
    using assms by (intro connect_handler_next) auto
  have l0: "invoked (log c1) = []"
    by (simp add: c1_def c0_def invoked_connect_handler initial_ctx_def)
  have loc: "locals_client c1" "locals_database c1 = None" "locals_collection c1 = None"
    using locals_connect_handler [OF nx] by (simp_all add: c1_def c0_def initial_ctx_def)
  consider "pre = []" | d where "pre = [d]" | d n where "pre = [d, n]"
    using assms(5) by (cases pre rule: target_for.cases) auto
  then show ?thesis
  proof cases
    case 1
    then show ?thesis
      using assms(1,4-) seg l0 loc nx
      by (auto simp: walk_defs c0_def [symmetric] c1_def [symmetric]
          simp del: dispatch.simps split: sum.splits)
  next
    case 2
    then show ?thesis
      using assms(1,3-) seg l0 loc nx
      by (auto simp: walk_defs c0_def [symmetric] c1_def [symmetric]
          simp del: dispatch.simps split: sum.splits option.splits)
  next
    case 3
    then show ?thesis
      using assms(1,3-) seg l0 loc nx
      by (auto simp: walk_defs c0_def [symmetric] c1_def [symmetric]
          simp del: dispatch.simps split: sum.splits option.splits)
  qed
qed







section \<open>Failed invocations\<close>




section \<open>One response for each request\<close>

lemma once_on_timeout: "answered_once c \<Longrightarrow> answered_once (on_timeout (c\<lparr>timer := False\<rparr>))"
  by (auto simp: answered_once_def on_timeout_def error_def envelope_def error_fields_def
      spread_props_def res_json_def res_status_def timeout_sent_def Let_def split: if_splits)

lemma once_await_io: "answered_once c \<Longrightarrow> answered_once (await_io p e c)"
  by (simp add: await_io_def once_on_timeout)

lemma once_log:
  "answered_once c \<Longrightarrow> ev \<noteq> Timed_out \<Longrightarrow> answered_once (c\<lparr>log := log c @ [ev]\<rparr>)"
  by (auto simp: answered_once_def split: if_splits)

lemma once_locals:
  "answered_once c \<Longrightarrow> answered_once (c\<lparr>locals_client := x\<rparr>)"
  "answered_once c \<Longrightarrow> answered_once (c\<lparr>locals_database := y\<rparr>)"
  "answered_once c \<Longrightarrow> answered_once (c\<lparr>locals_collection := z\<rparr>)"
  by (auto simp: answered_once_def split: if_splits)

lemma once_finish_error:
  "answered_once c \<Longrightarrow> answered_once (snd (finish (error reason context status (res c)) c))"
  by (auto simp: answered_once_def finish_def error_def res_json_def res_status_def Let_def
      timeout_sent_def split: if_splits)

lemma once_res_json:
  "answered_once c \<Longrightarrow> res_json v (res c) = Inr r \<Longrightarrow> answered_once (c\<lparr>res := r\<rparr>)"
  by (auto simp: answered_once_def res_json_def timeout_sent_def split: if_splits)

lemma once_parse: "answered_once c \<Longrightarrow> answered_once (snd (parse e v c))"
  by (simp add: parse_def once_await_io Let_def
      split: sum.splits bool.splits jsval.splits outcome.splits)

lemma once_try_action: "answered_once c \<Longrightarrow> answered_once (snd (try_action e rq tgt a c))"
proof -
  assume c: "answered_once c"
  have p: "answered_once c2" if "parse e v c1 = (r, c2)" "answered_once c1" for v c1 r c2
    using once_parse [of c1 e v] that by simp
  show ?thesis
    using c
    by (auto simp: try_action_def once_await_io once_log Let_def
        intro: once_res_json dest!: p
        split: option.splits sum.splits outcome.splits prod.splits)
qed

lemma once_run_action: "answered_once c \<Longrightarrow> answered_once (snd (run_action tgt a e rq c))"
proof -
  assume c: "answered_once c"
  have t: "answered_once c'" if "try_action e rq tgt a c = (r, c')" for r c'
    using once_try_action [OF c, of e rq tgt a] that by simp
  show ?thesis
    by (auto simp: run_action_def once_finish_error dest: t split: prod.splits outcome.splits)
qed

lemma once_connect_handler: "answered_once c \<Longrightarrow> answered_once (snd (connect_handler e rq c))"
  by (simp add: connect_handler_def once_finish_error once_await_io once_log once_locals Let_def
      split: outcome.splits sum.splits)

lemma once_select_database: "answered_once c \<Longrightarrow> answered_once (snd (select_database d e rq c))"
  by (simp add: select_database_def once_locals split: option.splits)

lemma once_select_collection:
  "answered_once c \<Longrightarrow> answered_once (snd (select_collection n e rq c))"
  by (simp add: select_collection_def once_locals split: option.splits)

lemma once_post_fallback: "answered_once c \<Longrightarrow> answered_once (snd (post_fallback e rq c))"
  by (simp add: post_fallback_def once_finish_error)

lemma once_all_fallback: "answered_once c \<Longrightarrow> answered_once (snd (all_fallback e rq c))"
  by (simp add: all_fallback_def once_finish_error)

lemma once_arm_timeout: "answered_once c \<Longrightarrow> answered_once (snd (arm_timeout e rq c))"
  by (auto simp: arm_timeout_def answered_once_def split: if_splits)

lemma once_routes:
  "(v, m) \<in> set (routes d) \<Longrightarrow> m p = Some h \<Longrightarrow> answered_once c \<Longrightarrow>
   answered_once (snd (h e rq c))"
  by (auto simp: routes_def client_action_def database_action_def collection_action_def
      once_arm_timeout once_connect_handler once_run_action once_select_database
      once_select_collection once_post_fallback once_all_fallback)

lemma once_dispatch:
  "\<forall>(v, m) \<in> set rs. \<forall>p h c. m p = Some h \<longrightarrow> answered_once c \<longrightarrow>
                                answered_once (snd (h e rq c))
   \<Longrightarrow> answered_once c \<Longrightarrow> answered_once (snd (dispatch rs e rq c))"
proof (induction rs arbitrary: c)
  case Nil
  then show ?case by simp
next
  case (Cons r rs)
  obtain v m where r: "r = (v, m)" by (cases r)
  have rest: "answered_once (snd (dispatch rs e rq c'))" if "answered_once c'" for c'
    using Cons.IH [of c'] Cons.prems(1) that by simp
  have here: "answered_once (snd (h e rq c))" if "m (path rq) = Some h" for h
    using Cons.prems that by (simp add: r)
  show ?case
    using Cons.prems(2) rest here
    by (auto simp: r dispatch_step simp del: dispatch.simps split: option.splits)
qed

lemma set_tl_subset: "set (tl xs) \<subseteq> set xs"
  by (cases xs) auto

lemma dispatch_armed:
  "dispatch (routes d) e rq initial_ctx =
     dispatch (tl (routes d)) e rq (initial_ctx\<lparr>timer := True\<rparr>)"
  by (simp add: routes_def match_any_def arm_timeout_def)

lemma once_routes_run: "answered_once (snd (dispatch (routes d) e rq initial_ctx))"
proof -
  have c0: "answered_once (initial_ctx\<lparr>timer := True\<rparr>)"
    by (simp add: answered_once_def initial_ctx_def fresh_response_def)
  have tl: "\<forall>(v, m) \<in> set (tl (routes d)). \<forall>p h c. m p = Some h \<longrightarrow> answered_once c \<longrightarrow>
                                                  answered_once (snd (h e rq c))"
    using set_tl_subset [of "routes d"] once_routes [where d = d and e = e and rq = rq]
    by blast
  show ?thesis
    unfolding dispatch_armed by (rule once_dispatch [OF tl c0])
qed

lemma once_handle_decoded: "answered_once (handle_decoded d e rq)"
  using once_routes_run [of d e rq] once_on_timeout [of "snd (dispatch (routes d) e rq initial_ctx)"]
  by (simp add: handle_decoded_def case_prod_beta)

lemma timer_has_run: "\<not> exits_on_rejection e \<Longrightarrow> \<not> timer (handle_decoded d e rq)"
  by (simp add: handle_decoded_def case_prod_beta on_timeout_def)

text \<open>No request is answered twice, on any runtime.\<close>

lemma at_most_one_response: "length (answers (serve e i)) \<le> 1"
proof (cases "serve e i")
  case (Inl r)
  then show ?thesis by simp
next
  case (Inr c)
  then obtain rq where "c = handle_decoded (decoded e) e rq"
    by (auto simp: serve_def split: option.splits)
  with once_handle_decoded [of "decoded e" e rq] Inr show ?thesis
    by (simp add: answered_once_def)
qed

text \<open>Where the process outlives an unhandled rejection, every request is answered once.\<close>

lemma one_response_where_process_survives:
  assumes "\<not> exits_on_rejection e"
  shows "length (answers (serve e i)) = 1"
proof (cases "serve e i")
  case (Inl r)
  then show ?thesis by simp
next
  case (Inr c)
  then obtain rq where c: "c = handle_decoded (decoded e) e rq"
    by (auto simp: serve_def split: option.splits)
  have "answered_once c" "\<not> timer c"
    using once_handle_decoded [of "decoded e" e rq] timer_has_run [OF assms, of "decoded e" rq] c
    by simp_all
  then have "length (sent (res c)) = 1"
    by (cases "sent (res c)") (auto simp: answered_once_def split: if_splits)
  with Inr show ?thesis by simp
qed

subsection \<open>The timer at each wait\<close>

lemma kept_on_timeout: "x \<in> set (log c) \<Longrightarrow> x \<in> set (log (on_timeout c))"
  by (simp add: on_timeout_def)

lemma kept_await_io: "x \<in> set (log c) \<Longrightarrow> x \<in> set (log (await_io p e c))"
  by (simp add: await_io_def on_timeout_def)

lemma kept_parse: "x \<in> set (log c) \<Longrightarrow> x \<in> set (log (snd (parse e v c)))"
  by (simp add: parse_def kept_await_io Let_def
      split: sum.splits bool.splits jsval.splits outcome.splits)

lemma kept_try_action: "x \<in> set (log c) \<Longrightarrow> x \<in> set (log (snd (try_action e rq tgt a c)))"
proof -
  assume c: "x \<in> set (log c)"
  have p: "x \<in> set (log c2)" if "parse e v c1 = (r, c2)" "x \<in> set (log c1)" for v c1 r c2
    using kept_parse [of x c1 e v] that by simp
  show ?thesis
    using c
    by (auto simp: try_action_def kept_await_io Let_def dest!: p
        split: option.splits sum.splits outcome.splits prod.splits)
qed

lemma kept_run_action: "x \<in> set (log c) \<Longrightarrow> x \<in> set (log (snd (run_action tgt a e rq c)))"
proof -
  assume c: "x \<in> set (log c)"
  have t: "x \<in> set (log c')" if "try_action e rq tgt a c = (r, c')" for r c'
    using kept_try_action [OF c, of e rq tgt a] that by simp
  show ?thesis
    by (auto simp: run_action_def log_finish dest: t split: prod.splits outcome.splits)
qed

lemma kept_connect_handler:
  "x \<in> set (log c) \<Longrightarrow> x \<in> set (log (snd (connect_handler e rq c)))"
  by (simp add: connect_handler_def log_finish kept_await_io Let_def
      split: outcome.splits sum.splits)

lemma kept_routes:
  "(v, m) \<in> set (routes d) \<Longrightarrow> m p = Some h \<Longrightarrow> x \<in> set (log c) \<Longrightarrow>
   x \<in> set (log (snd (h e rq c)))"
  by (auto simp: routes_def client_action_def database_action_def collection_action_def
      kept_run_action kept_connect_handler arm_timeout_def select_database_def
      select_collection_def post_fallback_def all_fallback_def log_finish
      split: option.splits)

lemma kept_dispatch:
  "\<forall>(v, m) \<in> set rs. \<forall>p h c. m p = Some h \<longrightarrow> x \<in> set (log c) \<longrightarrow>
                                x \<in> set (log (snd (h e rq c)))
   \<Longrightarrow> x \<in> set (log c) \<Longrightarrow> x \<in> set (log (snd (dispatch rs e rq c)))"
proof (induction rs arbitrary: c)
  case Nil
  then show ?case by simp
next
  case (Cons r rs)
  obtain v m where r: "r = (v, m)" by (cases r)
  have rest: "x \<in> set (log (snd (dispatch rs e rq c')))" if "x \<in> set (log c')" for c'
    using Cons.IH [of c'] Cons.prems(1) that by simp
  have here: "x \<in> set (log (snd (h e rq c)))" if "m (path rq) = Some h" for h
    using Cons.prems that by (simp add: r)
  show ?case
    using Cons.prems(2) rest here
    by (auto simp: r dispatch_step simp del: dispatch.simps split: option.splits)
qed

lemma timed_out_answer:
  "Timed_out \<in> set (log (snd (dispatch (routes d) e rq initial_ctx))) \<Longrightarrow>
   sent (res (handle_decoded d e rq)) = timeout_sent"
proof -
  assume t: "Timed_out \<in> set (log (snd (dispatch (routes d) e rq initial_ctx)))"
  then have "Timed_out \<in> set (log (handle_decoded d e rq))"
    by (simp add: handle_decoded_def case_prod_beta kept_on_timeout)
  with once_handle_decoded [of d e rq] show ?thesis
    by (simp add: answered_once_def split: if_splits)
qed

text \<open>
  The deadline falls while the request waits for the connection: whatever the connection,
  the routes and the store do then, the client has the 500 of the timer and nothing else.
\<close>

lemma timeout_during_connect:
  assumes "is_post rq" and "path rq = CHR ''/'' # p"
    and "\<not> (truthy (body rq) \<and> \<not> isArray (body rq))"
    and "deadline e = During_connect"
  shows "sent (res (handle_decoded d e rq)) = timeout_sent"
proof -
  define c0 where "c0 = initial_ctx\<lparr>timer := True\<rparr>"
  have t1: "Timed_out \<in> set (log (snd (connect_handler e rq c0)))"
    using assms(3,4)
    by (auto simp: connect_handler_def await_io_def on_timeout_def log_finish c0_def
        initial_ctx_def fresh_response_def Let_def split: outcome.splits sum.splits)
  have rest: "\<forall>(v, m) \<in> set (drop 2 (routes d)). \<forall>p h c. m p = Some h \<longrightarrow>
                Timed_out \<in> set (log c) \<longrightarrow> Timed_out \<in> set (log (snd (h e rq c)))"
    using set_drop_subset [of 2 "routes d"] kept_routes [where d = d and e = e and rq = rq]
    by blast
  have run: "dispatch (routes d) e rq initial_ctx =
               (if fst (connect_handler e rq c0) = Next
                then dispatch (drop 2 (routes d)) e rq (snd (connect_handler e rq c0))
                else connect_handler e rq c0)"
    using assms(1,2)
    by (simp add: routes_def dispatch_step match_any_def arm_timeout_def
        match_root_any_absolute c0_def del: dispatch.simps)
  have "Timed_out \<in> set (log (snd (dispatch (routes d) e rq initial_ctx)))"
    using t1 kept_dispatch [OF rest t1] by (simp add: run)
  then show ?thesis
    by (rule timed_out_answer)
qed

text \<open>The same while the request waits for the invoked action, whatever it then gives.\<close>

lemma timed_out_in_action:
  assumes "timer c" and "\<not> headersSent (res c)" and "deadline e = During_invoke"
    and "spread (body rq) = Inr args"
  shows "Timed_out \<in> set (log (snd (run_action (Some t) a e rq c)))"
proof -
  define c1 where "c1 = await_io During_invoke e (c\<lparr>log := log c @ [Invoke t a args]\<rparr>)"
  have t1: "Timed_out \<in> set (log c1)"
    using assms by (simp add: c1_def await_io_def on_timeout_def)
  have p: "Timed_out \<in> set (log c2)" if "parse e v c1 = (r, c2)" for v r c2
    using kept_parse [OF t1, of e v] that by simp
  have "Timed_out \<in> set (log (snd (try_action e rq (Some t) a c)))"
    using assms(4) t1
    by (auto simp: try_action_def c1_def [symmetric] Let_def dest: p
        split: outcome.splits prod.splits sum.splits)
  then show ?thesis
    by (auto simp: run_action_def log_finish split: prod.splits outcome.splits)
qed

lemma timeout_during_invoke:
  assumes "is_post rq" and "path rq = action_path pre a slash"
    and "\<forall>s \<in> set pre. segment s" and "segment a" and "target_for (map d pre) = Some t"
    and "body rq = Arr args"
    and "drv_connect e (extract_auth (b64 e) (authorization rq)) = Resolves ()"
    and "names_accepted e (map d pre)"
    and "deadline e = During_invoke"
  shows "sent (res (handle_decoded d e rq)) = timeout_sent"
proof -
  have seg: "js_split ''/'' (path rq) = [] # pre @ [CHR ''_'' # a] @ (if slash then [[]] else [])"
    using assms segments_action_path [of pre a slash] by (simp add: segment_def segments_def)
  note in_action = timed_out_in_action [where e = e and rq = rq and args = args]
  consider "pre = []" | x where "pre = [x]" | x n where "pre = [x, n]"
    using assms(5) by (cases pre rule: target_for.cases) auto
  then have "Timed_out \<in> set (log (snd (dispatch (routes d) e rq initial_ctx)))"
  proof cases
    case 1
    then show ?thesis
      using assms(1,4-) seg
      by (simp add: routes_def dispatch_step fst_run_action match_any_def arm_timeout_def
          connect_handler_def client_action_def await_io_def match_defs segment_def
          in_action initial_ctx_def fresh_response_def Let_def del: dispatch.simps)
  next
    case 2
    then show ?thesis
      using assms(1,3-) seg
      by (simp add: routes_def dispatch_step fst_run_action match_any_def arm_timeout_def
          connect_handler_def client_action_def database_action_def select_database_def
          await_io_def match_defs segment_def
          in_action initial_ctx_def fresh_response_def Let_def del: dispatch.simps)
  next
    case 3
    then show ?thesis
      using assms(1,3-) seg
      by (simp add: routes_def dispatch_step fst_run_action match_any_def arm_timeout_def
          connect_handler_def client_action_def database_action_def select_database_def
          collection_action_def select_collection_def await_io_def match_defs segment_def
          in_action initial_ctx_def fresh_response_def Let_def del: dispatch.simps)
  qed
  then show ?thesis
    by (rule timed_out_answer)
qed

text \<open>The same while the request waits for the elements of a cursor.\<close>

lemma timed_out_in_toArray:
  assumes "timer c" and "\<not> headersSent (res c)" and "deadline e = During_toArray"
    and "spread (body rq) = Inr args"
    and "drv_invoke e t a args = Resolves (Cursor ''Cursor'' r)"
  shows "Timed_out \<in> set (log (snd (run_action (Some t) a e rq c)))"
  using assms
  by (auto simp: run_action_def try_action_def parse_def await_io_def on_timeout_def
      log_finish Let_def split: outcome.splits prod.splits sum.splits)

lemma timeout_during_toArray:
  assumes "is_post rq" and "path rq = action_path pre a slash"
    and "\<forall>s \<in> set pre. segment s" and "segment a" and "target_for (map d pre) = Some t"
    and "body rq = Arr args"
    and "drv_connect e (extract_auth (b64 e) (authorization rq)) = Resolves ()"
    and "names_accepted e (map d pre)"
    and "drv_invoke e t (d a) args = Resolves (Cursor ''Cursor'' r)"
    and "deadline e = During_toArray"
  shows "sent (res (handle_decoded d e rq)) = timeout_sent"
proof -
  have seg: "js_split ''/'' (path rq) = [] # pre @ [CHR ''_'' # a] @ (if slash then [[]] else [])"
    using assms segments_action_path [of pre a slash] by (simp add: segment_def segments_def)
  note in_action = timed_out_in_toArray [where e = e and rq = rq and args = args and r = r]
  consider "pre = []" | x where "pre = [x]" | x n where "pre = [x, n]"
    using assms(5) by (cases pre rule: target_for.cases) auto
  then have "Timed_out \<in> set (log (snd (dispatch (routes d) e rq initial_ctx)))"
  proof cases
    case 1
    then show ?thesis
      using assms(1,4-) seg
      by (simp add: routes_def dispatch_step fst_run_action match_any_def arm_timeout_def
          connect_handler_def client_action_def await_io_def match_defs segment_def
          in_action initial_ctx_def fresh_response_def Let_def del: dispatch.simps)
  next
    case 2
    then show ?thesis
      using assms(1,3-) seg
      by (simp add: routes_def dispatch_step fst_run_action match_any_def arm_timeout_def
          connect_handler_def client_action_def database_action_def select_database_def
          await_io_def match_defs segment_def
          in_action initial_ctx_def fresh_response_def Let_def del: dispatch.simps)
  next
    case 3
    then show ?thesis
      using assms(1,3-) seg
      by (simp add: routes_def dispatch_step fst_run_action match_any_def arm_timeout_def
          connect_handler_def client_action_def database_action_def select_database_def
          collection_action_def select_collection_def await_io_def match_defs segment_def
          in_action initial_ctx_def fresh_response_def Let_def del: dispatch.simps)
  qed
  then show ?thesis
    by (rule timed_out_answer)
qed

text \<open>
  A connection that never completes: the handlers write nothing, and the timer answers,
  wherever the deadline is taken to fall.
\<close>

lemma timeout_when_connection_hangs:
  assumes "is_post rq" and "path rq = CHR ''/'' # p"
    and "\<not> (truthy (body rq) \<and> \<not> isArray (body rq))"
    and "drv_connect e (extract_auth (b64 e) (authorization rq)) = Pending"
  shows "sent (res (handle_decoded d e rq)) = timeout_sent"
  using assms
  by (cases "deadline e = During_connect")
     (simp_all add: run_defs match_root_any_absolute timeout_sent_def)

lemma segments_stats_example: "segments ''/my.db/_stats/'' = [[], ''my.db'', ''_stats'', []]"
  by (simp add: segments_def)

text \<open>
  C4. On \<^verbatim>\<open>POST /my.db/_stats/\<close> the driver refuses the database name and
  \<^verbatim>\<open>client.db(db_name)\<close> of line 111 throws. The handler of lines 107 to 113 has no
  \<^verbatim>\<open>try\<close> around it, as the action handlers have: its promise rejects with nobody to catch
  it. On a runtime that such a rejection ends, no response has been produced within the
  deadline and none follows: the timer never runs, and the client receives nothing. Where
  the process goes on, the timer answers the one 500.
\<close>

theorem refused_name_gets_no_response:
  "answers (serve (store_ok\<lparr>drv_db := \<lambda>d. if d = ''my.db''
                                          then Some ''database names cannot contain the character .''
                                          else None\<rparr>)
             (arriving ''POST'' ''/my.db/_stats/'' (Json_text (Arr [])))) = []
   \<and> answers (serve (store_ok\<lparr>drv_db := \<lambda>d. if d = ''my.db''
                                            then Some ''database names cannot contain the character .''
                                            else None,
                                exits_on_rejection := False\<rparr>)
               (arriving ''POST'' ''/my.db/_stats/'' (Json_text (Arr [])))) =
       [(500, Json (Obj [(''error'', Obj [(''reason'', Str ''timeout''), (''status'', Num 500)])]))]"
proof -
  have d: "percent_decode ''/my.db/_stats/'' = Some ''/my.db/_stats/''"
    "percent_decode ''my.db'' = Some ''my.db''"
    by (simp_all add: percent_decode_plain)
  show ?thesis
    by (simp add: serve_def arriving_def store_ok_def d decoded_def run_defs match_defs
        segments_stats_example [unfolded segments_def] is_post_def lower_POST)
qed

section \<open>Every response is a success or an error envelope\<close>

lemma ok_finish_error:
  "responses_ok c \<Longrightarrow> (reason, status) \<in> set error_kinds \<Longrightarrow>
   responses_ok (snd (finish (error reason context status (res c)) c))"
  by (auto simp: responses_ok_def finish_def error_def res_json_def res_status_def Let_def
      failure_response_def)

lemma ok_on_timeout: "responses_ok c \<Longrightarrow> responses_ok (on_timeout (c\<lparr>timer := t\<rparr>))"
proof -
  assume c: "responses_ok c"
  have k: "(''timeout'', 500) \<in> set error_kinds" by (simp add: error_kinds_def)
  have "responses_ok (snd (finish (error ''timeout'' None 500 (res c)) c))"
    using c k by (rule ok_finish_error)
  then show ?thesis
    using c by (auto simp: on_timeout_def responses_ok_def finish_def split: prod.splits sum.splits)
qed

lemma ok_await_io: "responses_ok c \<Longrightarrow> responses_ok (await_io p e c)"
  using ok_on_timeout [of c False] by (auto simp: await_io_def)

lemma ok_fields:
  "responses_ok c \<Longrightarrow> responses_ok (c\<lparr>log := l\<rparr>)"
  "responses_ok c \<Longrightarrow> responses_ok (c\<lparr>locals_client := x\<rparr>)"
  "responses_ok c \<Longrightarrow> responses_ok (c\<lparr>locals_database := y\<rparr>)"
  "responses_ok c \<Longrightarrow> responses_ok (c\<lparr>locals_collection := z\<rparr>)"
  "responses_ok c \<Longrightarrow> responses_ok (c\<lparr>timer := t\<rparr>)"
  by (simp_all add: responses_ok_def)

lemma ok_res_json:
  "responses_ok c \<Longrightarrow> res_json v (res c) = Inr r \<Longrightarrow> responses_ok (c\<lparr>res := r\<rparr>)"
  by (auto simp: responses_ok_def res_json_def split: if_splits)

lemma ok_parse: "responses_ok c \<Longrightarrow> responses_ok (snd (parse e v c))"
  by (simp add: parse_def ok_await_io Let_def
      split: sum.splits bool.splits jsval.splits outcome.splits)

lemma ok_try_action: "responses_ok c \<Longrightarrow> responses_ok (snd (try_action e rq tgt a c))"
proof -
  assume c: "responses_ok c"
  have p: "responses_ok c2" if "parse e v c1 = (r, c2)" "responses_ok c1" for v c1 r c2
    using ok_parse [of c1 e v] that by simp
  show ?thesis
    using c
    by (auto simp: try_action_def ok_await_io ok_fields Let_def
        intro: ok_res_json dest!: p
        split: option.splits sum.splits outcome.splits prod.splits)
qed

lemma ok_run_action: "responses_ok c \<Longrightarrow> responses_ok (snd (run_action tgt a e rq c))"
proof -
  assume c: "responses_ok c"
  have k: "(''not_found'', 404) \<in> set error_kinds" by (simp add: error_kinds_def)
  have t: "responses_ok c'" if "try_action e rq tgt a c = (r, c')" for r c'
    using ok_try_action [OF c, of e rq tgt a] that by simp
  show ?thesis
    by (auto simp: run_action_def ok_finish_error k dest: t split: prod.splits outcome.splits)
qed

lemma ok_routes:
  "(v, m) \<in> set (routes d) \<Longrightarrow> m p = Some h \<Longrightarrow> responses_ok c \<Longrightarrow>
   responses_ok (snd (h e rq c))"
  by (auto simp: routes_def client_action_def database_action_def collection_action_def
      ok_run_action arm_timeout_def ok_fields connect_handler_def ok_finish_error ok_await_io
      select_database_def select_collection_def post_fallback_def all_fallback_def
      error_kinds_def Let_def
      split: outcome.splits sum.splits option.splits)

lemma ok_dispatch:
  "\<forall>(v, m) \<in> set rs. \<forall>p h c. m p = Some h \<longrightarrow> responses_ok c \<longrightarrow>
                                responses_ok (snd (h e rq c))
   \<Longrightarrow> responses_ok c \<Longrightarrow> responses_ok (snd (dispatch rs e rq c))"
proof (induction rs arbitrary: c)
  case Nil
  then show ?case by simp
next
  case (Cons r rs)
  obtain v m where r: "r = (v, m)" by (cases r)
  have rest: "responses_ok (snd (dispatch rs e rq c'))" if "responses_ok c'" for c'
    using Cons.IH [of c'] Cons.prems(1) that by simp
  have here: "responses_ok (snd (h e rq c))" if "m (path rq) = Some h" for h
    using Cons.prems that by (simp add: r)
  show ?case
    using Cons.prems(2) rest here
    by (auto simp: r dispatch_step simp del: dispatch.simps split: option.splits)
qed

lemma ok_handle_decoded: "responses_ok (handle_decoded d e rq)"
proof -
  have c0: "responses_ok initial_ctx"
    by (simp add: responses_ok_def initial_ctx_def fresh_response_def)
  have "responses_ok (snd (dispatch (routes d) e rq initial_ctx))"
    using ok_routes [where d = d and e = e and rq = rq] c0 by (intro ok_dispatch) auto
  then show ?thesis
    using ok_on_timeout by (simp add: handle_decoded_def case_prod_beta)
qed

text \<open>
  Every response the handlers write for a request went out under 200 or is the envelope of
  one of the five kinds of failure, sent under the status of its kind.
\<close>

lemma responses_of_request:
  "list_all (\<lambda>x. fst x = 200 \<or> failure_response x) (sent (res (handle_decoded d e rq)))"
  using ok_handle_decoded [of d e rq] by (simp add: responses_ok_def)

section \<open>Credentials\<close>

lemma decode_example: "base64_decode ''dTphOmI='' = ''u:a:b''"
  by code_simp

text \<open>
  C5. For the header \<^verbatim>\<open>Basic dTphOmI=\<close>, the base64 of \<^verbatim>\<open>u:a:b\<close>, the claim asks for the
  password \<^verbatim>\<open>a:b\<close>, the text after the first colon. The source splits the decoded text at
  every colon and joins the pieces after the first with the empty string: the password
  is \<^verbatim>\<open>ab\<close>.
\<close>

theorem password_loses_colons:
  "extract_auth base64_decode (Some ''Basic dTphOmI='') = Some \<lparr>user = ''u'', password = ''ab''\<rparr>
   \<and> credential_of ''u:a:b'' = \<lparr>user = ''u'', password = ''ab''\<rparr>"
  by (simp add: credential_of_def extract_auth_def strip_basic_def join_empty_def decode_example)

section \<open>Normalising results\<close>

text \<open>What \<^verbatim>\<open>parse\<close> does with a cursor whose constructor is named \<^verbatim>\<open>Cursor\<close>.\<close>

lemma parse_Cursor:
  "parse e (Cursor ''Cursor'' (Resolves xs)) c =
     (Resolves (fclone e (Arr xs)), await_io During_toArray e c)"
  by (simp add: parse_def)

text \<open>
  A cursor named \<^verbatim>\<open>Cursor\<close> on the way through the routes: its elements, all of them and in
  their order, go to \<^verbatim>\<open>fclone\<close> and out under 200; when \<^verbatim>\<open>toArray\<close> rejects, the \<^verbatim>\<open>catch\<close>
  answers 404 with its message.
\<close>

lemma cursor_materialised:
  assumes "is_post rq" and "path rq = action_path pre a slash"
    and "\<forall>s \<in> set pre. segment s" and "segment a" and "target_for pre = Some t"
    and "body rq = Arr args"
    and "drv_connect e (extract_auth (b64 e) (authorization rq)) = Resolves ()"
    and "names_accepted e pre"
    and "deadline e = After_completion"
    and "drv_invoke e t a args = Resolves (Cursor ''Cursor'' (Resolves xs))"
  shows "res (handle_request e rq) =
           \<lparr>statusCode = 200, headersSent = True, sent = [(200, fclone e (Arr xs))]\<rparr>"
proof -
  have seg: "js_split ''/'' (path rq) = [] # pre @ [CHR ''_'' # a] @ (if slash then [[]] else [])"
    using assms segments_action_path [of pre a slash] by (simp add: segment_def segments_def)
  consider "pre = []" | x where "pre = [x]" | x n where "pre = [x, n]"
    using assms(5) by (cases pre rule: target_for.cases) auto
  then show ?thesis
  proof cases
    case 1
    then show ?thesis
      using assms(1,4-) seg by (simp add: run_defs match_defs segment_def)
  next
    case 2
    then show ?thesis
      using assms(1,3-) seg by (simp add: run_defs match_defs segment_def)
  next
    case 3
    then show ?thesis
      using assms(1,3-) seg by (simp add: run_defs match_defs segment_def)
  qed
qed

lemma toArray_rejection_not_found:
  assumes "is_post rq" and "path rq = action_path pre a slash"
    and "\<forall>s \<in> set pre. segment s" and "segment a" and "target_for pre = Some t"
    and "body rq = Arr args"
    and "drv_connect e (extract_auth (b64 e) (authorization rq)) = Resolves ()"
    and "names_accepted e pre"
    and "deadline e = After_completion"
    and "drv_invoke e t a args = Resolves (Cursor ''Cursor'' (Rejects m))"
  shows "res (handle_request e rq) =
           \<lparr>statusCode = 404, headersSent = True,
            sent = [(404, Obj [(''error'', Obj [(''reason'', Str ''not_found''),
                                                (''message'', Str m), (''action'', Str a),
                                                (''status'', Num 404)])])]\<rparr>"
proof -
  have seg: "js_split ''/'' (path rq) = [] # pre @ [CHR ''_'' # a] @ (if slash then [[]] else [])"
    using assms segments_action_path [of pre a slash] by (simp add: segment_def segments_def)
  consider "pre = []" | x where "pre = [x]" | x n where "pre = [x, n]"
    using assms(5) by (cases pre rule: target_for.cases) auto
  then show ?thesis
  proof cases
    case 1
    then show ?thesis
      using assms(1,4-) seg by (simp add: run_defs match_defs segment_def)
  next
    case 2
    then show ?thesis
      using assms(1,3-) seg by (simp add: run_defs match_defs segment_def)
  next
    case 3
    then show ?thesis
      using assms(1,3-) seg by (simp add: run_defs match_defs segment_def)
  qed
qed

text \<open>
  C7. Given \<^verbatim>\<open>null\<close> or \<^verbatim>\<open>undefined\<close>, a result the driver gives for many actions,
  \<^verbatim>\<open>parse\<close> throws at \<^verbatim>\<open>object.constructor\<close> before it reaches \<^verbatim>\<open>fclone\<close>. On
  \<^verbatim>\<open>POST /mydb/users/_findOne/\<close>, when the driver resolves \<^verbatim>\<open>null\<close> for no document found,
  the client is answered 404 with the \<^verbatim>\<open>TypeError\<close>'s message.
\<close>

theorem parse_throws_on_null:
  "parse e Null c = (Rejects ''Cannot read property 'constructor' of null'', c)
   \<and> parse e Undefined c = (Rejects ''Cannot read property 'constructor' of undefined'', c)
   \<and> sent (res (handle_request (store_ok\<lparr>drv_invoke := \<lambda>t a args. Resolves Null\<rparr>)
                  (post ''/mydb/users/_findOne/'' (Arr [Obj [(''age'', Num 21)]])))) =
        [(404, Obj [(''error'',
                     Obj [(''reason'', Str ''not_found''),
                          (''message'', Str ''Cannot read property 'constructor' of null''),
                          (''action'', Str ''findOne''),
                          (''status'', Num 404)])])]"
proof -
  have "handle_request (store_ok\<lparr>drv_invoke := \<lambda>t a args. Resolves Null\<rparr>)
          (post ''/mydb/users/_findOne/'' (Arr [Obj [(''age'', Num 21)]])) =
     \<lparr>res = \<lparr>statusCode = 404, headersSent = True,
              sent = [(404, Obj [(''error'',
                         Obj [(''reason'', Str ''not_found''),
                              (''message'', Str ''Cannot read property 'constructor' of null''),
                              (''action'', Str ''findOne''),
                              (''status'', Num 404)])])]\<rparr>,
      locals_client = True, locals_database = Some ''mydb'',
      locals_collection = Some (''mydb'', ''users''), timer = False,
      log = [Connect None,
             Invoke (Collection ''mydb'' ''users'') ''findOne'' [Obj [(''age'', Num 21)]]]\<rparr>"
    by (simp add: run_defs match_defs example_defs)
  then show ?thesis
    by (simp add: parse_def)
qed

text \<open>
  C6. A cursor whose constructor is not named exactly \<^verbatim>\<open>Cursor\<close> (the driver's
  \<^verbatim>\<open>AggregationCursor\<close>, which \<^verbatim>\<open>aggregate\<close> returns) is not materialised: \<^verbatim>\<open>toArray\<close> is not
  awaited and the handle itself goes to \<^verbatim>\<open>fclone\<close>, whatever elements the cursor has. On
  \<^verbatim>\<open>POST /mydb/users/_aggregate/\<close> the body of the 200 response is what \<^verbatim>\<open>fclone\<close> makes of the
  handle, not the sequence of the cursor's elements.
\<close>

theorem aggregation_cursor_not_materialised:
  "parse e (Cursor ''AggregationCursor'' r) c =
     (Resolves (fclone e (Cursor ''AggregationCursor'' r)), c)
   \<and> sent (res (handle_request
                  (store_ok\<lparr>drv_invoke := \<lambda>t a args.
                     Resolves (Cursor ''AggregationCursor'' (Resolves [Obj [(''n'', Num 1)]]))\<rparr>)
                  (post ''/mydb/users/_aggregate/'' (Arr [Arr []])))) =
        [(200, Cursor ''AggregationCursor'' (Resolves [Obj [(''n'', Num 1)]]))]"
proof -
  have "handle_request
          (store_ok\<lparr>drv_invoke := \<lambda>t a args.
             Resolves (Cursor ''AggregationCursor'' (Resolves [Obj [(''n'', Num 1)]]))\<rparr>)
          (post ''/mydb/users/_aggregate/'' (Arr [Arr []])) =
     \<lparr>res = \<lparr>statusCode = 200, headersSent = True,
              sent = [(200, Cursor ''AggregationCursor'' (Resolves [Obj [(''n'', Num 1)]]))]\<rparr>,
      locals_client = True, locals_database = Some ''mydb'',
      locals_collection = Some (''mydb'', ''users''), timer = False,
      log = [Connect None, Invoke (Collection ''mydb'' ''users'') ''aggregate'' [Arr []]]\<rparr>"
    by (simp add: run_defs match_defs example_defs)
  then show ?thesis
    by (simp add: parse_def)
qed

end
